theory Spec2Isabelle
  imports Main
begin

section \<open>JavaScript values and the host operations the agent relies on\<close>

text \<open>
  The agent of \<^verbatim>\<open>src/agent.js\<close> works on untyped JSON-like data: transcript messages,
  provider replies and tool arguments are whatever \<^verbatim>\<open>JSON.parse\<close> or an adapter produced.
  Values are therefore modelled by one datatype. Objects are association lists in
  enumeration order with pairwise distinct keys; numbers are the integers (rendered in
  decimal); strings are lists of code units below 256.
\<close>

datatype jsval =
    JUndefined
  | JNull
  | JBool bool
  | JNum int
  | JStr string
  | JArr "jsval list"
  | JObj "(string \<times> jsval) list"

text \<open>A thrown value or a rejection reason: an \<^verbatim>\<open>Error\<close> object with its name and message.\<close>

datatype exn = Exn (exn_name: string) (exn_message: string)

definition TypeError :: "string \<Rightarrow> exn" where
  "TypeError msg = Exn ''TypeError'' msg"

text \<open>\<^verbatim>\<open>String(e)\<close> for an \<^verbatim>\<open>Error\<close> object (\<^verbatim>\<open>Error.prototype.toString\<close>).\<close>

definition exn_to_string :: "exn \<Rightarrow> string" where
  "exn_to_string e =
     (if exn_name e = [] then exn_message e
      else if exn_message e = [] then exn_name e
      else exn_name e @ '': '' @ exn_message e)"

text \<open>Sequencing of steps that can throw: the first exception ends the sequence.\<close>

fun and_then :: "exn + 'a \<Rightarrow> ('a \<Rightarrow> exn + 'b) \<Rightarrow> exn + 'b" where
  "and_then (Inl e) f = Inl e"
| "and_then (Inr x) f = f x"

text \<open>\<^verbatim>\<open>Boolean(v)\<close>, the test of \<^verbatim>\<open>if (v)\<close>, \<^verbatim>\<open>v || d\<close> and \<^verbatim>\<open>filter(Boolean)\<close>.\<close>

fun truthy :: "jsval \<Rightarrow> bool" where
  "truthy JUndefined = False"
| "truthy JNull = False"
| "truthy (JBool b) = b"
| "truthy (JNum n) = (n \<noteq> 0)"
| "truthy (JStr s) = (s \<noteq> [])"
| "truthy (JArr xs) = True"
| "truthy (JObj kvs) = True"

fun nullish :: "jsval \<Rightarrow> bool" where
  "nullish JUndefined = True"
| "nullish JNull = True"
| "nullish v = False"

text \<open>\<^verbatim>\<open>a ?? b\<close> and \<^verbatim>\<open>a || b\<close>.\<close>

definition coalesce :: "jsval \<Rightarrow> jsval \<Rightarrow> jsval" where
  "coalesce a b = (if nullish a then b else a)"

definition or_else :: "jsval \<Rightarrow> jsval \<Rightarrow> jsval" where
  "or_else a b = (if truthy a then a else b)"

fun is_string :: "jsval \<Rightarrow> bool" where
  "is_string (JStr s) = True"
| "is_string v = False"

fun lookup :: "(string \<times> jsval) list \<Rightarrow> string \<Rightarrow> jsval" where
  "lookup [] k = JUndefined"
| "lookup ((k', v) # kvs) k = (if k' = k then v else lookup kvs k)"

text \<open>
  \<^verbatim>\<open>v?.k\<close>: the property \<open>k\<close> of \<open>v\<close>, \<^verbatim>\<open>undefined\<close> when \<open>v\<close> is nullish, has no such
  property or is a primitive or an array (the keys the agent reads by name are no built-in
  properties of strings, numbers or arrays, the inherited \<^verbatim>\<open>String.prototype.link\<close> apart,
  a function that \<^verbatim>\<open>JSON.stringify\<close> drops as it drops \<^verbatim>\<open>undefined\<close>).
\<close>

fun get :: "jsval \<Rightarrow> string \<Rightarrow> jsval" where
  "get (JObj kvs) k = lookup kvs k"
| "get v k = JUndefined"

text \<open>\<^verbatim>\<open>v.k\<close>: as \<^verbatim>\<open>v?.k\<close>, but reading a property of \<^verbatim>\<open>null\<close> or \<^verbatim>\<open>undefined\<close> throws.\<close>

definition get_prop :: "jsval \<Rightarrow> string \<Rightarrow> exn + jsval" where
  "get_prop v k =
     (if nullish v then Inl (TypeError (''Cannot read properties of null or undefined: '' @ k))
      else Inr (get v k))"

text \<open>Whether a value is an object with an own property \<open>k\<close>.\<close>

fun has_prop :: "jsval \<Rightarrow> string \<Rightarrow> bool" where
  "has_prop (JObj kvs) k = (k \<in> set (map fst kvs))"
| "has_prop v k = False"


subsection \<open>Rendering numbers and strings\<close>

definition digit_char :: "nat \<Rightarrow> char" where
  "digit_char d = char_of (48 + d)"

fun show_nat :: "nat \<Rightarrow> string" where
  "show_nat n = (if n < 10 then [digit_char n] else show_nat (n div 10) @ [digit_char (n mod 10)])"

declare show_nat.simps [simp del]

definition show_int :: "int \<Rightarrow> string" where
  "show_int i = (if i < 0 then CHR ''-'' # show_nat (nat (- i)) else show_nat (nat i))"

fun join :: "string \<Rightarrow> string list \<Rightarrow> string" where
  "join sep [] = []"
| "join sep [s] = s"
| "join sep (s # t # ss) = s @ sep @ join sep (t # ss)"

text \<open>
  \<^verbatim>\<open>String(v)\<close>, a template literal's \<^verbatim>\<open>${v}\<close> and, on a value that is not nullish,
  \<^verbatim>\<open>v.toString()\<close>. An array joins its elements with commas, \<^verbatim>\<open>null\<close> and \<^verbatim>\<open>undefined\<close>
  elements rendering as the empty string. A plain object renders as
  \<^verbatim>\<open>[object Object]\<close> unless it has an own property \<^verbatim>\<open>toString\<close>: in JSON-like data that
  property is no function, and the conversion throws a TypeError.
\<close>

fun to_string :: "jsval \<Rightarrow> exn + string"
  and to_string_elems :: "jsval list \<Rightarrow> exn + string list" where
  "to_string JUndefined = Inr ''undefined''"
| "to_string JNull = Inr ''null''"
| "to_string (JBool b) = Inr (if b then ''true'' else ''false'')"
| "to_string (JNum n) = Inr (show_int n)"
| "to_string (JStr s) = Inr s"
| "to_string (JArr xs) =
     (case to_string_elems xs of Inl e \<Rightarrow> Inl e | Inr ss \<Rightarrow> Inr (join '','' ss))"
| "to_string (JObj kvs) =
     (if ''toString'' \<in> set (map fst kvs)
      then Inl (TypeError ''Cannot convert object to primitive value'')
      else Inr ''[object Object]'')"
| "to_string_elems [] = Inr []"
| "to_string_elems (x # xs) =
     (case (if nullish x then Inr [] else to_string x) of
        Inl e \<Rightarrow> Inl e
      | Inr s \<Rightarrow> (case to_string_elems xs of Inl e \<Rightarrow> Inl e | Inr ss \<Rightarrow> Inr (s # ss)))"

text \<open>White space as \<^verbatim>\<open>String.prototype.trim\<close> sees it, among the code units below 256.\<close>

definition is_ws :: "char \<Rightarrow> bool" where
  "is_ws c = (of_char c \<in> {9, 10, 11, 12, 13, 32, 160 :: nat})"

definition trim :: "string \<Rightarrow> string" where
  "trim s = rev (dropWhile is_ws (rev (dropWhile is_ws s)))"

subsection \<open>\<^verbatim>\<open>JSON.stringify\<close>\<close>

definition hex_char :: "nat \<Rightarrow> char" where
  "hex_char d = (if d < 10 then char_of (48 + d) else char_of (87 + d))"

definition quote_char :: "char \<Rightarrow> string" where
  "quote_char c =
     (let n = (of_char c :: nat) in
      if c = CHR 0x22 then [CHR 0x5C, CHR 0x22]
      else if c = CHR 0x5C then [CHR 0x5C, CHR 0x5C]
      else if n = 8 then [CHR 0x5C, CHR ''b'']
      else if n = 9 then [CHR 0x5C, CHR ''t'']
      else if n = 10 then [CHR 0x5C, CHR ''n'']
      else if n = 12 then [CHR 0x5C, CHR ''f'']
      else if n = 13 then [CHR 0x5C, CHR ''r'']
      else if n < 32 then [CHR 0x5C, CHR ''u'', CHR ''0'', CHR ''0'', hex_char (n div 16), hex_char (n mod 16)]
      else [c])"

definition quote :: "string \<Rightarrow> string" where
  "quote s = CHR 0x22 # concat (map quote_char s) @ [CHR 0x22]"

text \<open>
  The serialization of a value that is not \<^verbatim>\<open>undefined\<close>. Inside an array
  \<^verbatim>\<open>undefined\<close> is written \<^verbatim>\<open>null\<close>; inside an object a property whose value is
  \<^verbatim>\<open>undefined\<close> is left out.
\<close>

fun stringify :: "jsval \<Rightarrow> string"
  and stringify_elems :: "jsval list \<Rightarrow> string list"
  and stringify_props :: "(string \<times> jsval) list \<Rightarrow> string list" where
  "stringify JUndefined = ''null''"
| "stringify JNull = ''null''"
| "stringify (JBool b) = (if b then ''true'' else ''false'')"
| "stringify (JNum n) = show_int n"
| "stringify (JStr s) = quote s"
| "stringify (JArr xs) = ''['' @ join '','' (stringify_elems xs) @ '']''"
| "stringify (JObj kvs) = ''{'' @ join '','' (stringify_props kvs) @ ''}''"
| "stringify_elems [] = []"
| "stringify_elems (x # xs) = stringify x # stringify_elems xs"
| "stringify_props [] = []"
| "stringify_props ((k, v) # kvs) =
     (if v = JUndefined then stringify_props kvs
      else (quote k @ '':'' @ stringify v) # stringify_props kvs)"

text \<open>\<^verbatim>\<open>JSON.stringify(v)\<close>: \<^verbatim>\<open>undefined\<close> for \<^verbatim>\<open>undefined\<close>, a string otherwise.\<close>

definition JSON_stringify :: "jsval \<Rightarrow> jsval" where
  "JSON_stringify v = (if v = JUndefined then JUndefined else JStr (stringify v))"

text \<open>
  \<^verbatim>\<open>JSON.stringify(v, null, 2)\<close> of a value that is not \<^verbatim>\<open>undefined\<close>: the same
  serialization laid out with one element or property per line, each level indented by two
  spaces more than the enclosing one \<open>ind\<close>, and a space after the colon of a property. An
  array or object with nothing to write stays \<^verbatim>\<open>[]\<close> or \<^verbatim>\<open>{}\<close>.
\<close>

definition laid_out :: "string \<Rightarrow> string \<Rightarrow> string list \<Rightarrow> string \<Rightarrow> string" where
  "laid_out ind opening parts closing =
     (if parts = [] then opening @ closing
      else opening @ [CHR 0x0A] @ ind @ ''  ''
           @ join ('','' @ [CHR 0x0A] @ ind @ ''  '') parts
           @ [CHR 0x0A] @ ind @ closing)"

fun stringify_indented :: "string \<Rightarrow> jsval \<Rightarrow> string"
  and stringify_indented_elems :: "string \<Rightarrow> jsval list \<Rightarrow> string list"
  and stringify_indented_props :: "string \<Rightarrow> (string \<times> jsval) list \<Rightarrow> string list" where
  "stringify_indented ind JUndefined = ''null''"
| "stringify_indented ind JNull = ''null''"
| "stringify_indented ind (JBool b) = (if b then ''true'' else ''false'')"
| "stringify_indented ind (JNum n) = show_int n"
| "stringify_indented ind (JStr s) = quote s"
| "stringify_indented ind (JArr xs) =
     laid_out ind ''['' (stringify_indented_elems (ind @ ''  '') xs) '']''"
| "stringify_indented ind (JObj kvs) =
     laid_out ind ''{'' (stringify_indented_props (ind @ ''  '') kvs) ''}''"
| "stringify_indented_elems ind [] = []"
| "stringify_indented_elems ind (x # xs) = stringify_indented ind x # stringify_indented_elems ind xs"
| "stringify_indented_props ind [] = []"
| "stringify_indented_props ind ((k, v) # kvs) =
     (if v = JUndefined then stringify_indented_props ind kvs
      else (quote k @ '': '' @ stringify_indented ind v) # stringify_indented_props ind kvs)"

subsection \<open>JSON texts\<close>






section \<open>The message sanitizer\<close>

text \<open>\<^verbatim>\<open>asString\<close>, the local helper of \<^verbatim>\<open>sanitizeMessagesForOpenAI\<close>.\<close>

definition asString :: "jsval \<Rightarrow> jsval" where
  "asString v = (if is_string v then v else if nullish v then JStr [] else JSON_stringify v)"

text \<open>\<^verbatim>\<open>Array.isArray(x) ? x.filter(Boolean) : []\<close>\<close>

fun truthy_elems :: "jsval \<Rightarrow> jsval list" where
  "truthy_elems (JArr xs) = filter truthy xs"
| "truthy_elems v = []"

text \<open>The callback of \<^verbatim>\<open>tc.map\<close>; \<open>t\<close> is truthy, so reading its properties cannot throw.\<close>

definition sanitize_tool_call :: "jsval \<Rightarrow> jsval" where
  "sanitize_tool_call t =
     (let f = get t ''function''; a = get f ''arguments'' in
      JObj [(''id'', get t ''id''),
            (''type'', JStr ''function''),
            (''function'', JObj [(''name'', get f ''name''),
                                 (''arguments'', if is_string a then a
                                                 else JSON_stringify (or_else a (JObj [])))])])"

text \<open>The callback of \<^verbatim>\<open>messages.map\<close>.\<close>

definition sanitize_message :: "jsval \<Rightarrow> exn + jsval" where
  "sanitize_message m =
     (case get_prop m ''role'' of
        Inl e \<Rightarrow> Inl e
      | Inr role \<Rightarrow>
          if role = JStr ''assistant'' then
            (let tc = truthy_elems (get m ''tool_calls'') in
             if length tc > 0 then
               (case to_string (coalesce (get m ''content'') (JStr [])) of
                  Inl e \<Rightarrow> Inl e
                | Inr s \<Rightarrow>
                    (let c = trim s in
                     Inr (JObj [(''role'', role),
                                (''tool_calls'', JArr (map sanitize_tool_call tc)),
                                (''content'', if length c \<noteq> 0 then JStr c else JNull)])))
             else Inr (JObj [(''role'', role),
                             (''content'', asString (coalesce (get m ''content'') (JStr [])))]))
          else if role = JStr ''tool'' then
            Inr (JObj ([(''role'', role), (''tool_call_id'', get m ''tool_call_id'')]
                       @ (if truthy (get m ''name'') then [(''name'', get m ''name'')] else [])
                       @ [(''content'', asString (coalesce (get m ''content'') (JStr [])))]))
          else
            Inr (JObj ([(''role'', role),
                        (''content'', asString (coalesce (get m ''content'') (JStr [])))]
                       @ (if truthy (get m ''name'') then [(''name'', get m ''name'')] else []))))"

fun sanitizeMessagesForOpenAI :: "jsval list \<Rightarrow> exn + jsval list" where
  "sanitizeMessagesForOpenAI [] = Inr []"
| "sanitizeMessagesForOpenAI (m # ms) =
     (case sanitize_message m of
        Inl e \<Rightarrow> Inl e
      | Inr out \<Rightarrow>
          (case sanitizeMessagesForOpenAI ms of Inl e \<Rightarrow> Inl e | Inr outs \<Rightarrow> Inr (out # outs)))"

section \<open>The sanitizer on a store of objects\<close>

text \<open>
  Whether the sanitizer changes its input cannot be seen on values; here objects and
  arrays are cells of a store, a value is a primitive or the address of a cell, creating
  an object or an array appends a cell, and an assignment \<^verbatim>\<open>o.k = v\<close> overwrites the
  cell of \<open>o\<close>.
\<close>

datatype hval = HUndefined | HNull | HBool bool | HNum int | HStr string | HRef nat

datatype cell = CObj "(string \<times> hval) list" | CArr "hval list"

type_synonym heap = "cell list"

definition alloc :: "heap \<Rightarrow> cell \<Rightarrow> heap \<times> hval" where
  "alloc h c = (h @ [c], HRef (length h))"

fun set_field :: "(string \<times> hval) list \<Rightarrow> string \<Rightarrow> hval \<Rightarrow> (string \<times> hval) list" where
  "set_field [] k v = [(k, v)]"
| "set_field ((k', v') # kvs) k v =
     (if k' = k then (k, v) # kvs else (k', v') # set_field kvs k v)"

text \<open>\<^verbatim>\<open>o.k = v\<close> for an object \<open>o\<close>; the store is left alone when \<open>o\<close> is no object.\<close>

definition store :: "heap \<Rightarrow> hval \<Rightarrow> string \<Rightarrow> hval \<Rightarrow> heap" where
  "store h ob k v =
     (case ob of
        HRef a \<Rightarrow>
          (if a < length h then
             (case h ! a of CObj kvs \<Rightarrow> h[a := CObj (set_field kvs k v)] | CArr xs \<Rightarrow> h)
           else h)
      | _ \<Rightarrow> h)"

fun hlookup :: "(string \<times> hval) list \<Rightarrow> string \<Rightarrow> hval" where
  "hlookup [] k = HUndefined"
| "hlookup ((k', v) # kvs) k = (if k' = k then v else hlookup kvs k)"

text \<open>\<^verbatim>\<open>v?.k\<close> in the store.\<close>

definition hget :: "heap \<Rightarrow> hval \<Rightarrow> string \<Rightarrow> hval" where
  "hget h v k =
     (case v of
        HRef a \<Rightarrow>
          (if a < length h then (case h ! a of CObj kvs \<Rightarrow> hlookup kvs k | CArr xs \<Rightarrow> HUndefined)
           else HUndefined)
      | _ \<Rightarrow> HUndefined)"

fun hnullish :: "hval \<Rightarrow> bool" where
  "hnullish HUndefined = True"
| "hnullish HNull = True"
| "hnullish v = False"

fun htruthy :: "hval \<Rightarrow> bool" where
  "htruthy HUndefined = False"
| "htruthy HNull = False"
| "htruthy (HBool b) = b"
| "htruthy (HNum n) = (n \<noteq> 0)"
| "htruthy (HStr s) = (s \<noteq> [])"
| "htruthy (HRef a) = True"

fun his_string :: "hval \<Rightarrow> bool" where
  "his_string (HStr s) = True"
| "his_string v = False"

text \<open>
  The two host operations that read whole values out of the store:
  \<^verbatim>\<open>v.toString()\<close> and \<^verbatim>\<open>JSON.stringify(v)\<close>. On JSON-like data (no functions, no
  getters) they run no code of the page and write nothing; either can throw.
\<close>

record reads =
  h_to_string :: "heap \<Rightarrow> hval \<Rightarrow> exn + string"
  h_stringify :: "heap \<Rightarrow> hval \<Rightarrow> exn + string"

definition asString_h :: "reads \<Rightarrow> heap \<Rightarrow> hval \<Rightarrow> exn + hval" where
  "asString_h R h v =
     (if his_string v then Inr v
      else if hnullish v then Inr (HStr [])
      else and_then (h_stringify R h v) (\<lambda>s. Inr (HStr s)))"

text \<open>\<^verbatim>\<open>Array.isArray(x) ? x.filter(Boolean) : []\<close>: a new array either way.\<close>

definition truthy_elems_h :: "heap \<Rightarrow> hval \<Rightarrow> heap \<times> hval \<times> hval list" where
  "truthy_elems_h h x =
     (let xs = (case x of
                  HRef a \<Rightarrow>
                    (if a < length h then (case h ! a of CArr ys \<Rightarrow> filter htruthy ys | CObj kvs \<Rightarrow> [])
                     else [])
                | _ \<Rightarrow> [])
      in case alloc h (CArr xs) of (h', tc) \<Rightarrow> (h', tc, xs))"

text \<open>The callback of \<^verbatim>\<open>tc.map\<close>: up to three new objects per tool call.\<close>

definition sanitize_tool_call_h :: "reads \<Rightarrow> heap \<Rightarrow> hval \<Rightarrow> exn + heap \<times> hval" where
  "sanitize_tool_call_h R h t =
     (let f = hget h t ''function''; a = hget h f ''arguments'' in
      and_then
        (if his_string a then Inr (h, a)
         else if htruthy a then and_then (h_stringify R h a) (\<lambda>s. Inr (h, HStr s))
         else (case alloc h (CObj []) of
                 (h1, e) \<Rightarrow> and_then (h_stringify R h1 e) (\<lambda>s. Inr (h1, HStr s))))
        (\<lambda>(h2, arguments).
           case alloc h2 (CObj [(''name'', hget h2 f ''name''), (''arguments'', arguments)]) of
             (h3, fn) \<Rightarrow>
               Inr (alloc h3 (CObj [(''id'', hget h3 t ''id''), (''type'', HStr ''function''),
                                    (''function'', fn)]))))"

fun sanitize_tool_calls_h :: "reads \<Rightarrow> heap \<Rightarrow> hval list \<Rightarrow> exn + heap \<times> hval list" where
  "sanitize_tool_calls_h R h [] = Inr (h, [])"
| "sanitize_tool_calls_h R h (t # ts) =
     and_then (sanitize_tool_call_h R h t) (\<lambda>(h1, x).
     and_then (sanitize_tool_calls_h R h1 ts) (\<lambda>(h2, xs). Inr (h2, x # xs)))"

definition coalesce_h :: "hval \<Rightarrow> hval \<Rightarrow> hval" where
  "coalesce_h a b = (if hnullish a then b else a)"

text \<open>The callback of \<^verbatim>\<open>messages.map\<close>: it writes to the new object \<open>out\<close> only.\<close>

definition sanitize_message_h :: "reads \<Rightarrow> heap \<Rightarrow> hval \<Rightarrow> exn + heap \<times> hval" where
  "sanitize_message_h R h m =
     (if hnullish m then Inl (TypeError ''Cannot read properties of null or undefined: role'')
      else
        (let role = hget h m ''role'' in
         case alloc h (CObj [(''role'', role)]) of
           (h1, out) \<Rightarrow>
             if role = HStr ''assistant'' then
               (case truthy_elems_h h1 (hget h1 m ''tool_calls'') of
                  (h2, tc, elems) \<Rightarrow>
                    if length elems > 0 then
                      and_then (sanitize_tool_calls_h R h2 elems) (\<lambda>(h3, calls).
                        case alloc h3 (CArr calls) of
                          (h4, mapped) \<Rightarrow>
                            (let h5 = store h4 out ''tool_calls'' mapped in
                             and_then (h_to_string R h5 (coalesce_h (hget h5 m ''content'') (HStr [])))
                               (\<lambda>s. let c = trim s in
                                  Inr (store h5 out ''content''
                                         (if length c \<noteq> 0 then HStr c else HNull), out))))
                    else
                      and_then (asString_h R h2 (coalesce_h (hget h2 m ''content'') (HStr [])))
                        (\<lambda>c. Inr (store h2 out ''content'' c, out)))
             else if role = HStr ''tool'' then
               (let h2 = store h1 out ''tool_call_id'' (hget h1 m ''tool_call_id'');
                    h3 = (if htruthy (hget h2 m ''name'') then store h2 out ''name'' (hget h2 m ''name'')
                          else h2)
                in and_then (asString_h R h3 (coalesce_h (hget h3 m ''content'') (HStr [])))
                     (\<lambda>c. Inr (store h3 out ''content'' c, out)))
             else
               and_then (asString_h R h1 (coalesce_h (hget h1 m ''content'') (HStr [])))
                 (\<lambda>c. let h2 = store h1 out ''content'' c in
                    Inr (if htruthy (hget h2 m ''name'') then store h2 out ''name'' (hget h2 m ''name'')
                         else h2, out))))"

fun sanitize_messages_h :: "reads \<Rightarrow> heap \<Rightarrow> hval list \<Rightarrow> exn + heap \<times> hval list" where
  "sanitize_messages_h R h [] = Inr (h, [])"
| "sanitize_messages_h R h (m # ms) =
     and_then (sanitize_message_h R h m) (\<lambda>(h1, out).
     and_then (sanitize_messages_h R h1 ms) (\<lambda>(h2, outs). Inr (h2, out # outs)))"

text \<open>
  \<^verbatim>\<open>sanitizeMessagesForOpenAI(messages)\<close> in the store: \<^verbatim>\<open>messages.map\<close> exists on
  arrays only and returns a new array.
\<close>

definition sanitizeMessagesForOpenAI_h :: "reads \<Rightarrow> heap \<Rightarrow> hval \<Rightarrow> exn + heap \<times> hval" where
  "sanitizeMessagesForOpenAI_h R h msgs =
     (case msgs of
        HRef a \<Rightarrow>
          (if a < length h then
             (case h ! a of
                CArr ms \<Rightarrow>
                  and_then (sanitize_messages_h R h ms) (\<lambda>(h1, outs). Inr (alloc h1 (CArr outs)))
              | CObj kvs \<Rightarrow> Inl (TypeError ''messages.map is not a function''))
           else Inl (TypeError ''messages.map is not a function''))
      | _ \<Rightarrow> Inl (TypeError ''messages.map is not a function''))"


text \<open>
  Reading a value out of the store as a tree, through at most \<open>n\<close> references; exact
  on a store without cycles when \<open>n\<close> is the number of its cells.
\<close>

fun reify :: "nat \<Rightarrow> heap \<Rightarrow> hval \<Rightarrow> jsval" where
  "reify n h HUndefined = JUndefined"
| "reify n h HNull = JNull"
| "reify n h (HBool b) = JBool b"
| "reify n h (HNum i) = JNum i"
| "reify n h (HStr s) = JStr s"
| "reify 0 h (HRef a) = JUndefined"
| "reify (Suc n) h (HRef a) =
     (if a < length h then
        (case h ! a of
           CObj kvs \<Rightarrow> JObj (map (\<lambda>kv. (fst kv, reify n h (snd kv))) kvs)
         | CArr xs \<Rightarrow> JArr (map (reify n h) xs))
      else JUndefined)"

definition tree_reads :: reads where
  "tree_reads =
     \<lparr>h_to_string = (\<lambda>h v. to_string (reify (length h) h v)),
      h_stringify = (\<lambda>h v. Inr (stringify (reify (length h) h v)))\<rparr>"

section \<open>The agent loop\<close>

text \<open>
  The session state \<^verbatim>\<open>state = { messages, running }\<close>, together with what the loop shows
  to the page (\<^verbatim>\<open>addAlert\<close>, \<^verbatim>\<open>addMessage\<close>) and a ghost counter of the calls of
  \<^verbatim>\<open>callLLM\<close>: every iteration of the loop starts with exactly one such call.
\<close>

record state =
  messages :: "jsval list"
  running :: bool
  alerts :: "(string \<times> string) list"
  chat :: "(string \<times> string) list"
  llm_calls :: nat

text \<open>
  What the loop awaits and does not define itself. \<open>json_parse\<close> is \<^verbatim>\<open>JSON.parse\<close>
  (\<open>Inl\<close> a SyntaxError). \<open>call_llm\<close> is the outcome of \<^verbatim>\<open>callLLM(state.messages, tools)\<close>
  in the current state: the provider's reply or \<^verbatim>\<open>null\<close>; \<^verbatim>\<open>callLLM\<close> catches every
  provider error itself. \<open>exec_tool\<close> is the outcome of \<^verbatim>\<open>executeTool(name, args)\<close>:
  a result, or \<open>Inl\<close> the reason of a rejected promise. Every awaited operation is taken
  to settle.
\<close>

record deps =
  json_parse :: "string \<Rightarrow> exn + jsval"
  call_llm :: "state \<Rightarrow> jsval"
  exec_tool :: "state \<Rightarrow> jsval \<Rightarrow> jsval \<Rightarrow> exn + jsval"

definition setBusy :: "bool \<Rightarrow> state \<Rightarrow> state" where
  "setBusy b st = st\<lparr>running := b\<rparr>"

definition addAlert :: "string \<Rightarrow> string \<Rightarrow> state \<Rightarrow> state" where
  "addAlert type msg st = st\<lparr>alerts := alerts st @ [(type, msg)]\<rparr>"

definition addMessage :: "string \<Rightarrow> string \<Rightarrow> state \<Rightarrow> state" where
  "addMessage role content st =
     (if role = ''tool'' \<or> role = ''system'' then st
      else st\<lparr>chat := chat st @ [(role, content)]\<rparr>)"

definition replace_char :: "char \<Rightarrow> string \<Rightarrow> string \<Rightarrow> string" where
  "replace_char c r s = concat (map (\<lambda>x. if x = c then r else [x]) s)"

definition escapeHtml :: "string \<Rightarrow> string" where
  "escapeHtml s =
     replace_char (CHR ''>'') ''&gt;'' (replace_char (CHR ''<'') ''&lt;''
       (replace_char (CHR ''&'') ''&amp;'' s))"

text \<open>\<^verbatim>\<open>x.length\<close> and \<^verbatim>\<open>x[0]\<close> of a value that is not nullish.\<close>

fun js_length :: "jsval \<Rightarrow> jsval" where
  "js_length (JArr xs) = JNum (int (length xs))"
| "js_length (JStr s) = JNum (int (length s))"
| "js_length (JObj kvs) = lookup kvs ''length''"
| "js_length v = JUndefined"

fun index0 :: "jsval \<Rightarrow> jsval" where
  "index0 (JArr xs) = (case xs of [] \<Rightarrow> JUndefined | x # _ \<Rightarrow> x)"
| "index0 (JStr s) = (case s of [] \<Rightarrow> JUndefined | c # _ \<Rightarrow> JStr [c])"
| "index0 (JObj kvs) = lookup kvs ''0''"
| "index0 v = JUndefined"

text \<open>\<^verbatim>\<open>data?.choices?.length ? data.choices[0].message : null\<close>\<close>

definition getAssistantMessage :: "jsval \<Rightarrow> exn + jsval" where
  "getAssistantMessage data =
     (let choices = get data ''choices'' in
      if truthy (if nullish choices then JUndefined else js_length choices)
      then get_prop (index0 choices) ''message''
      else Inr JNull)"

text \<open>
  The \<^verbatim>\<open>try { args = ... } catch {}\<close> of one tool call: \<open>args\<close> keeps its initial
  value \<^verbatim>\<open>{}\<close> when reading \<^verbatim>\<open>tc.function.arguments\<close> or \<^verbatim>\<open>JSON.parse\<close> throws.
\<close>

definition parse_args :: "deps \<Rightarrow> jsval \<Rightarrow> jsval" where
  "parse_args d tc =
     (case get_prop (get tc ''function'') ''arguments'' of
        Inl e \<Rightarrow> JObj []
      | Inr a \<Rightarrow>
          (case a of
             JStr s \<Rightarrow> (case json_parse d s of Inl e \<Rightarrow> JObj [] | Inr v \<Rightarrow> v)
           | _ \<Rightarrow> or_else a (JObj [])))"

text \<open>
  The body of \<^verbatim>\<open>for (const tc of toolCalls)\<close>. A rejection of \<^verbatim>\<open>executeTool\<close> is
  caught on the spot (\<^verbatim>\<open>.catch(e => ({ error: String(e) }))\<close>); reading
  \<^verbatim>\<open>tc.function.name\<close> is outside every inner handler and can throw. The result pairs
  what was thrown, if anything, with the state reached.
\<close>

definition tool_step :: "deps \<Rightarrow> state \<Rightarrow> jsval \<Rightarrow> exn option \<times> state" where
  "tool_step d st tc =
     (let args = parse_args d tc in
      case get_prop (get tc ''function'') ''name'' of
        Inl e \<Rightarrow> (Some e, st)
      | Inr name \<Rightarrow>
          (let result = (case exec_tool d st name args of
                           Inl e \<Rightarrow> JObj [(''error'', JStr (exn_to_string e))]
                         | Inr r \<Rightarrow> r)
           in (None, st\<lparr>messages := messages st @
                 [JObj [(''role'', JStr ''tool''),
                        (''tool_call_id'', or_else (get tc ''id'') JUndefined),
                        (''name'', name),
                        (''content'', JSON_stringify result)]]\<rparr>)))"

fun tool_steps :: "deps \<Rightarrow> state \<Rightarrow> jsval list \<Rightarrow> exn option \<times> state" where
  "tool_steps d st [] = (None, st)"
| "tool_steps d st (tc # tcs) =
     (case tool_step d st tc of
        (Some e, st') \<Rightarrow> (Some e, st')
      | (None, st') \<Rightarrow> tool_steps d st' tcs)"

datatype flow = Break | Continue | Throw exn

text \<open>
  The message pushed for a reply: \<^verbatim>\<open>tool_calls\<close> is set only when the filtered array
  is not empty.
\<close>

definition assistant_message :: "jsval \<Rightarrow> jsval list \<Rightarrow> jsval" where
  "assistant_message msg toolCalls =
     JObj ([(''role'', JStr ''assistant''),
            (''content'', or_else (get msg ''content'') (JStr []))]
           @ (if length toolCalls > 0 then [(''tool_calls'', JArr toolCalls)] else []))"

text \<open>\<^verbatim>\<open>if (msg?.content) addMessage('assistant', escapeHtml(msg.content))\<close>\<close>

definition render_reply :: "jsval \<Rightarrow> state \<Rightarrow> exn + state" where
  "render_reply msg st =
     (if truthy (get msg ''content'')
      then and_then (to_string (get msg ''content''))
             (\<lambda>s. Inr (addMessage ''assistant'' (escapeHtml s) st))
      else Inr st)"

text \<open>\<^verbatim>\<open>if (toolCalls.length === 0) break;\<close> and the \<^verbatim>\<open>for\<close> loop over the calls.\<close>

definition run_tools :: "deps \<Rightarrow> state \<Rightarrow> jsval list \<Rightarrow> flow \<times> state" where
  "run_tools d st toolCalls =
     (if length toolCalls = 0 then (Break, st)
      else (case tool_steps d st toolCalls of
              (Some e, st') \<Rightarrow> (Throw e, st')
            | (None, st') \<Rightarrow> (Continue, st')))"

text \<open>The body of the loop from \<^verbatim>\<open>const toolCalls = ...\<close> on, given \<open>msg\<close>.\<close>

definition handle_reply :: "deps \<Rightarrow> state \<Rightarrow> jsval \<Rightarrow> flow \<times> state" where
  "handle_reply d st msg =
     (let toolCalls = truthy_elems (get msg ''tool_calls'');
          st2 = st\<lparr>messages := messages st @ [assistant_message msg toolCalls]\<rparr>
      in case render_reply msg st2 of
           Inl e \<Rightarrow> (Throw e, st2)
         | Inr st3 \<Rightarrow> run_tools d st3 toolCalls)"

text \<open>One run of the body of \<^verbatim>\<open>while (turns++ < 8)\<close>.\<close>

definition iteration :: "deps \<Rightarrow> state \<Rightarrow> flow \<times> state" where
  "iteration d st =
     (let resp = call_llm d st;
          st1 = st\<lparr>llm_calls := Suc (llm_calls st)\<rparr>
      in if \<not> truthy resp then (Break, st1)
         else (case getAssistantMessage resp of
                 Inl e \<Rightarrow> (Throw e, st1)
               | Inr msg \<Rightarrow> handle_reply d st1 msg))"

text \<open>\<^verbatim>\<open>let turns = 0; while (turns++ < 8) { ... }\<close>, from the current value of \<open>turns\<close>.\<close>

function agent_while :: "deps \<Rightarrow> nat \<Rightarrow> state \<Rightarrow> exn option \<times> state" where
  "agent_while d turns st =
     (if turns < 8 then
        (case iteration d st of
           (Break, st') \<Rightarrow> (None, st')
         | (Throw e, st') \<Rightarrow> (Some e, st')
         | (Continue, st') \<Rightarrow> agent_while d (Suc turns) st')
      else (None, st))"
  by pat_completeness auto
termination
  by (relation "measure (\<lambda>(d, turns, st). 8 - turns)") auto

declare agent_while.simps [simp del]

text \<open>\<^verbatim>\<open>agentLoop\<close>: the guard, the loop inside \<^verbatim>\<open>try\<close>, the alert of \<^verbatim>\<open>catch\<close>, \<^verbatim>\<open>finally\<close>.\<close>

definition agentLoop :: "deps \<Rightarrow> state \<Rightarrow> state" where
  "agentLoop d st =
     (if running st then st
      else
        (case agent_while d 0 (setBusy True st) of
           (None, st') \<Rightarrow> setBusy False st'
         | (Some err, st') \<Rightarrow>
             setBusy False
               (addAlert ''danger''
                  (''Agent loop error: '' @
                     escapeHtml (if exn_message err \<noteq> [] then exn_message err
                                 else exn_to_string err)) st')))"

text \<open>\<^verbatim>\<open>onSend\<close>, with the text of the input box as an argument.\<close>

definition onSend :: "deps \<Rightarrow> string \<Rightarrow> state \<Rightarrow> state" where
  "onSend d input st =
     (if running st then st
      else
        (let text = trim input in
         if text = [] then st
         else agentLoop d
                ((addMessage ''user'' (escapeHtml text) st)
                   \<lparr>messages := messages st @ [JObj [(''role'', JStr ''user''), (''content'', JStr text)]]\<rparr>)))"

text \<open>
  A provider reply in canonical form: one choice whose message has the content \<open>c\<close> and
  the tool calls \<open>tcs\<close>.
\<close>

definition reply :: "jsval \<Rightarrow> jsval list \<Rightarrow> jsval" where
  "reply c tcs =
     JObj [(''choices'', JArr [JObj [(''message'',
        JObj [(''role'', JStr ''assistant''), (''content'', c), (''tool_calls'', JArr tcs)])]])]"

text \<open>
  What the loop reads out of a reply: the tool calls it will run (\<open>None\<close> when there is
  no reply or reading it throws) and the content.
\<close>

definition tool_calls_of :: "jsval \<Rightarrow> jsval list option" where
  "tool_calls_of resp =
     (if \<not> truthy resp then None
      else (case getAssistantMessage resp of
              Inl e \<Rightarrow> None
            | Inr msg \<Rightarrow> Some (truthy_elems (get msg ''tool_calls''))))"

definition content_of :: "jsval \<Rightarrow> jsval" where
  "content_of resp =
     (case getAssistantMessage resp of Inl e \<Rightarrow> JUndefined | Inr msg \<Rightarrow> get msg ''content'')"

text \<open>
  The same dependencies, answering only in states whose \<open>running\<close> flag is set: a way
  to say in which states the loop consults the provider and the tools.
\<close>

definition while_running :: "deps \<Rightarrow> deps" where
  "while_running d =
     d\<lparr>call_llm := (\<lambda>s. if running s then call_llm d s else JNull),
       exec_tool := (\<lambda>s n a. if running s then exec_tool d s n a else Inr JNull)\<rparr>"

text \<open>
  Stubs for concrete runs: a provider that always gives the reply \<open>r\<close>, a parser that
  rejects every string, a tool executor that echoes its name and arguments; the idle
  session with an empty transcript; a tool call whose arguments are no JSON.
\<close>

definition stub_deps :: "jsval \<Rightarrow> deps" where
  "stub_deps r =
     \<lparr>json_parse = (\<lambda>s. Inl (Exn ''SyntaxError'' ''Unexpected token'')),
      call_llm = (\<lambda>s. r),
      exec_tool = (\<lambda>s n a. Inr (JObj [(''name'', n), (''args'', a)]))\<rparr>"

definition idle :: state where
  "idle = \<lparr>messages = [], running = False, alerts = [], chat = [], llm_calls = 0\<rparr>"

text \<open>A session in the middle of a loop.\<close>

definition busy :: state where
  "busy = \<lparr>messages = [JObj [(''role'', JStr ''user''), (''content'', JStr ''hi'')]],
           running = True, alerts = [], chat = [(''user'', ''hi'')], llm_calls = 1\<rparr>"

definition example_call :: jsval where
  "example_call =
     JObj [(''id'', JStr ''c1''), (''type'', JStr ''function''),
           (''function'', JObj [(''name'', JStr ''web_search''), (''arguments'', JStr ''{oops'')])]"

section \<open>The tools\<close>

text \<open>
  What the tools read and await: the settings of the page, \<^verbatim>\<open>fetch\<close>,
  \<^verbatim>\<open>encodeURIComponent\<close> (\<open>Inl\<close> a URIError), the conversion of a string to a number
  (\<open>None\<close> is \<^verbatim>\<open>NaN\<close>), the profile of the dynamically imported module and the sandbox
  worker. A response carries the outcomes of \<^verbatim>\<open>res.text()\<close> and \<^verbatim>\<open>res.json()\<close>.
  \<^verbatim>\<open>fetch\<close>, the import and the reading of a response settle; the sandbox worker need not
  report an end.
\<close>

record response =
  ok :: bool
  status :: int
  statusText :: string
  text_body :: "exn + string"
  json_body :: "exn + jsval"

record request =
  url :: string
  http_method :: string
  headers :: "(string \<times> string) list"
  body :: "string option"

text \<open>
  A value that reaches the page from the sandbox worker by structured cloning: JSON-like
  data, or a value that \<^verbatim>\<open>JSON.stringify\<close> does not serialize but throws a TypeError on,
  such as a BigInt or an object that contains itself.
\<close>

datatype worker_value = Json jsval | Unserializable

text \<open>
  The messages the script of the sandbox worker posts while it runs a piece of code, in
  the order the page receives them: \<^verbatim>\<open>{type: 'log', data}\<close> for a call of
  \<^verbatim>\<open>console.log\<close>, with the arguments converted to strings; \<^verbatim>\<open>{type: 'done', result}\<close>
  with the value the code returned; \<^verbatim>\<open>{type: 'error', error}\<close> with the message of what
  the code threw, a string. Code that never returns posts neither of the last two.
\<close>

datatype worker_message = WLog "string list" | WDone worker_value | WError string

record env =
  googleKey :: string
  googleCx :: string
  apiKey :: string
  provider :: string
  fetch :: "request \<Rightarrow> exn + response"
  encodeURIComponent :: "string \<Rightarrow> exn + string"
  string_to_number :: "string \<Rightarrow> int option"
  aipipe_profile :: "exn + jsval"
  worker :: "string \<Rightarrow> worker_message list"

definition http_get :: "string \<Rightarrow> request" where
  "http_get u = \<lparr>url = u, http_method = ''GET'', headers = [], body = None\<rparr>"

text \<open>\<^verbatim>\<open>encodeURIComponent(v)\<close> of any value: conversion to a string, then the encoding.\<close>

definition encode :: "env \<Rightarrow> jsval \<Rightarrow> exn + string" where
  "encode E v = (case to_string v of Inl e \<Rightarrow> Inl e | Inr s \<Rightarrow> encodeURIComponent E s)"

text \<open>
  The conversion to a number behind \<^verbatim>\<open>num - k\<close>; \<open>None\<close> is \<^verbatim>\<open>NaN\<close>. An array or an
  object is converted through its string.
\<close>

definition to_number :: "env \<Rightarrow> jsval \<Rightarrow> exn + int option" where
  "to_number E v =
     (case v of
        JUndefined \<Rightarrow> Inr None
      | JNull \<Rightarrow> Inr (Some 0)
      | JBool b \<Rightarrow> Inr (Some (if b then 1 else 0))
      | JNum n \<Rightarrow> Inr (Some n)
      | JStr s \<Rightarrow> Inr (string_to_number E s)
      | _ \<Rightarrow> (case to_string v of Inl e \<Rightarrow> Inl e | Inr s \<Rightarrow> Inr (string_to_number E s)))"

text \<open>\<^verbatim>\<open>xs.slice(0, Math.max(0, num - k))\<close>, given the number \<open>num\<close>.\<close>

definition slice_to :: "int option \<Rightarrow> int \<Rightarrow> 'a list \<Rightarrow> 'a list" where
  "slice_to num k xs = (case num of None \<Rightarrow> [] | Some n \<Rightarrow> take (nat (max 0 (n - k))) xs)"

text \<open>The destructuring \<^verbatim>\<open>{ q, num = 3 }\<close> of the argument; it throws on a nullish one.\<close>

definition destructure :: "jsval \<Rightarrow> exn + unit" where
  "destructure args =
     (if nullish args then Inl (TypeError ''Cannot destructure null or undefined'') else Inr ())"

definition with_default :: "jsval \<Rightarrow> jsval \<Rightarrow> jsval" where
  "with_default v d = (if v = JUndefined then d else v)"

subsection \<open>Web search with a configured engine\<close>

text \<open>The callback \<^verbatim>\<open>i => ({ title: i.title, link: i.link, snippet: i.snippet })\<close>.\<close>

definition cse_item :: "jsval \<Rightarrow> exn + jsval" where
  "cse_item i =
     (if nullish i then Inl (TypeError ''Cannot read properties of null or undefined: title'')
      else Inr (JObj [(''title'', get i ''title''), (''link'', get i ''link''),
                      (''snippet'', get i ''snippet'')]))"

fun cse_items :: "jsval list \<Rightarrow> exn + jsval list" where
  "cse_items [] = Inr []"
| "cse_items (i # is) =
     (case cse_item i of
        Inl e \<Rightarrow> Inl e
      | Inr x \<Rightarrow> (case cse_items is of Inl e \<Rightarrow> Inl e | Inr xs \<Rightarrow> Inr (x # xs)))"

definition google_url :: "env \<Rightarrow> jsval \<Rightarrow> jsval \<Rightarrow> exn + string" where
  "google_url E q num =
     and_then (encodeURIComponent E (googleKey E)) (\<lambda>k.
     and_then (encodeURIComponent E (googleCx E)) (\<lambda>c.
     and_then (encode E q) (\<lambda>q'.
     and_then (to_string num) (\<lambda>n.
       Inr (''https://www.googleapis.com/customsearch/v1?key='' @ k @ ''&cx='' @ c
            @ ''&q='' @ q' @ ''&num='' @ n)))))"

text \<open>The branch \<^verbatim>\<open>if (googleKey && googleCx) { ... }\<close> of \<^verbatim>\<open>toolWebSearch\<close>.\<close>

definition google_search :: "env \<Rightarrow> jsval \<Rightarrow> jsval \<Rightarrow> exn + jsval" where
  "google_search E q num =
     and_then (google_url E q num) (\<lambda>u.
     and_then (fetch E (http_get u)) (\<lambda>res.
       if \<not> ok res then
         and_then (text_body res) (\<lambda>t.
           Inr (JObj [(''error'', JStr (''Google CSE error: '' @ show_int (status res)
                                         @ '' '' @ statusText res)),
                      (''detail'', JStr t)]))
       else
         and_then (json_body res) (\<lambda>json.
         and_then (get_prop json ''items'') (\<lambda>its.
           (case or_else its (JArr []) of
              JArr xs \<Rightarrow>
                and_then (cse_items xs) (\<lambda>items.
                  Inr (JObj [(''query'', q), (''provider'', JStr ''google_cse''),
                             (''items'', JArr items)]))
            | _ \<Rightarrow> Inl (TypeError ''(json.items || []).map is not a function''))))))"

subsection \<open>Web search without keys: two best-effort lookups\<close>

text \<open>\<^verbatim>\<open>s.split(sep)[0]\<close>: the part of \<open>s\<close> before the first occurrence of \<open>sep\<close>.\<close>

fun before_sep :: "string \<Rightarrow> string \<Rightarrow> string" where
  "before_sep sep [] = []"
| "before_sep sep (c # cs) =
     (if take (length sep) (c # cs) = sep then [] else c # before_sep sep cs)"

text \<open>\<^verbatim>\<open>s.replace(/\s+/g, "_")\<close>: every maximal run of white space becomes one underscore.\<close>

function replace_ws_runs :: "string \<Rightarrow> string" where
  "replace_ws_runs [] = []"
| "replace_ws_runs (c # cs) =
     (if is_ws c then CHR ''_'' # replace_ws_runs (dropWhile is_ws cs)
      else c # replace_ws_runs cs)"
  by pat_completeness auto
termination
  by (relation "measure length") (auto simp: length_dropWhile_le less_Suc_eq_le)

fun arr_elems :: "jsval \<Rightarrow> jsval list" where
  "arr_elems (JArr xs) = xs"
| "arr_elems v = []"

text \<open>
  One related topic of the DuckDuckGo answer: no item unless \<^verbatim>\<open>rt?.Text\<close> is truthy;
  \<^verbatim>\<open>split\<close> exists on strings only.
\<close>

definition ddg_topic :: "jsval \<Rightarrow> jsval \<Rightarrow> exn + jsval list" where
  "ddg_topic q rt =
     (let t = get rt ''Text'' in
      if truthy t then
        (case t of
           JStr s \<Rightarrow>
             Inr [JObj [(''title'', or_else (JStr (before_sep '' - '' s)) q),
                        (''link'', or_else (get rt ''FirstURL'') (JStr [])),
                        (''snippet'', t)]]
         | _ \<Rightarrow> Inl (TypeError ''rt.Text.split is not a function''))
      else Inr [])"

fun ddg_topics :: "jsval \<Rightarrow> jsval list \<Rightarrow> exn + jsval list" where
  "ddg_topics q [] = Inr []"
| "ddg_topics q (rt # rts) =
     and_then (ddg_topic q rt) (\<lambda>x. and_then (ddg_topics q rts) (\<lambda>xs. Inr (x @ xs)))"

text \<open>The body of the first \<^verbatim>\<open>try\<close>: the value assigned to \<open>ddg\<close>, or what was thrown.\<close>

definition ddg_try :: "env \<Rightarrow> jsval \<Rightarrow> jsval \<Rightarrow> exn + jsval" where
  "ddg_try E q num =
     and_then (encode E q) (\<lambda>q'.
     and_then (fetch E (http_get (''https://api.duckduckgo.com/?q='' @ q'
                                    @ ''&format=json&no_html=1&skip_disambig=1''))) (\<lambda>res.
       if ok res then
         and_then (json_body res) (\<lambda>data.
         and_then (get_prop data ''AbstractText'') (\<lambda>abstract.
           (let items0 =
                  (if truthy abstract then
                     [JObj [(''title'', or_else (get data ''Heading'') q),
                            (''link'', or_else (or_else (get data ''AbstractURL'')
                                                  (get (index0 (get data ''Results'')) ''FirstURL''))
                                         (JStr [])),
                            (''snippet'', abstract)]]
                   else [])
            in and_then
                 (case get data ''RelatedTopics'' of
                    JArr rts \<Rightarrow>
                      and_then (to_number E num) (\<lambda>n.
                        ddg_topics q (slice_to n (int (length items0)) rts))
                  | _ \<Rightarrow> Inr [])
                 (\<lambda>related.
                    (let items = items0 @ related in
                     Inr (if length items \<noteq> 0
                          then JObj [(''query'', q), (''provider'', JStr ''duckduckgo''),
                                     (''items'', JArr items)]
                          else JNull))))))
       else Inr JNull))"

text \<open>\<open>ddg\<close> after \<^verbatim>\<open>try { ... } catch {}\<close>: \<^verbatim>\<open>null\<close> when anything was thrown.\<close>

definition ddg_lookup :: "env \<Rightarrow> jsval \<Rightarrow> jsval \<Rightarrow> jsval" where
  "ddg_lookup E q num = (case ddg_try E q num of Inl e \<Rightarrow> JNull | Inr v \<Rightarrow> v)"

text \<open>The body of the second \<^verbatim>\<open>try\<close>; \<^verbatim>\<open>q.trim()\<close> exists on strings only.\<close>

definition wiki_try :: "env \<Rightarrow> jsval \<Rightarrow> exn + jsval" where
  "wiki_try E q =
     (case q of
        JStr s \<Rightarrow>
          and_then (encodeURIComponent E (replace_ws_runs (trim s))) (\<lambda>titleGuess.
          and_then (fetch E (http_get (''https://en.wikipedia.org/api/rest_v1/page/summary/''
                                         @ titleGuess))) (\<lambda>wres.
            if ok wres then
              and_then (json_body wres) (\<lambda>w.
                if truthy (get w ''extract'') then
                  Inr (JObj [(''query'', q), (''provider'', JStr ''wikipedia''),
                             (''items'', JArr
                                [JObj [(''title'', or_else (get w ''title'') q),
                                       (''link'',
                                          or_else
                                            (or_else
                                               (get (get (get w ''content_urls'') ''desktop'') ''page'')
                                               (get (get (get w ''content_urls'') ''mobile'') ''page''))
                                            (JStr [])),
                                       (''snippet'', get w ''extract'')]])])
                else Inr JNull)
            else Inr JNull))
      | _ \<Rightarrow> Inl (TypeError ''q.trim is not a function''))"

definition wiki_lookup :: "env \<Rightarrow> jsval \<Rightarrow> jsval" where
  "wiki_lookup E q = (case wiki_try E q of Inl e \<Rightarrow> JNull | Inr v \<Rightarrow> v)"

text \<open>The four \<^verbatim>\<open>return\<close>s that end \<^verbatim>\<open>toolWebSearch\<close>, given \<open>ddg\<close> and \<open>wiki\<close>.\<close>

definition fallback_merge :: "env \<Rightarrow> jsval \<Rightarrow> jsval \<Rightarrow> jsval \<Rightarrow> jsval \<Rightarrow> exn + jsval" where
  "fallback_merge E q num ddg wiki =
     (if truthy ddg \<and> truthy wiki then
        and_then (to_number E num) (\<lambda>n.
          Inr (JObj [(''query'', q), (''provider'', JStr ''fallback(duckduckgo+wiki)''),
                     (''items'', JArr (slice_to n 1 (arr_elems (get ddg ''items''))
                                       @ take 1 (arr_elems (get wiki ''items''))))]))
      else if truthy ddg then Inr ddg
      else if truthy wiki then Inr wiki
      else Inr (JObj [(''query'', q), (''provider'', JStr ''fallback''), (''items'', JArr []),
                      (''warning'', JStr ''No-key fallbacks returned no results (network/CORS?).'')]))"

definition toolWebSearch :: "env \<Rightarrow> jsval \<Rightarrow> exn + jsval" where
  "toolWebSearch E args =
     and_then (destructure args) (\<lambda>_.
       (let q = get args ''q''; num = with_default (get args ''num'') (JNum 3) in
        if googleKey E \<noteq> [] \<and> googleCx E \<noteq> [] then google_search E q num
        else fallback_merge E q num (ddg_lookup E q num) (wiki_lookup E q)))"

subsection \<open>The proxy call and the sandbox\<close>

definition toolAIPipeProxy :: "env \<Rightarrow> jsval \<Rightarrow> exn + jsval" where
  "toolAIPipeProxy E args =
     and_then (destructure args) (\<lambda>_.
       (let prompt = get args ''prompt'';
            model = with_default (get args ''model'') (JStr ''openai/gpt-4o-mini'');
            max_tokens = with_default (get args ''max_tokens'') (JNum 200);
            key = (if apiKey E = [] \<and> provider E = ''aipipe'' then
                     (case aipipe_profile E of
                        Inl e \<Rightarrow> JStr []
                      | Inr profile \<Rightarrow>
                          if truthy (get profile ''token'') then get profile ''token'' else JStr [])
                   else JStr (apiKey E))
        in if \<not> truthy key then
             Inr (JObj [(''error'',
                    JStr ''AI Pipe token required (use Provider: AI Pipe or log in via AI Pipe).'')])
           else
             and_then (to_string key) (\<lambda>k.
             and_then (fetch E \<lparr>url = ''https://aipipe.org/openrouter/v1/chat/completions'',
                                http_method = ''POST'',
                                headers = [(''Content-Type'', ''application/json''),
                                           (''Authorization'', ''Bearer '' @ k)],
                                body = Some (stringify (JObj
                                  [(''model'', model),
                                   (''messages'', JArr [JObj [(''role'', JStr ''user''),
                                                              (''content'', prompt)]]),
                                   (''max_tokens'', max_tokens)]))\<rparr>) (\<lambda>res.
               if \<not> ok res then
                 and_then (text_body res) (\<lambda>t.
                   Inr (JObj [(''error'', JStr (''AI Pipe error: '' @ show_int (status res)
                                                 @ '' '' @ statusText res)),
                              (''detail'', JStr t)]))
               else
                 and_then (json_body res) (\<lambda>data.
                   Inr (JObj [(''text'',
                          or_else (get (get (index0 (get data ''choices'')) ''message'') ''content'')
                                  (JStr []))]))))))"

definition lower_char :: "char \<Rightarrow> char" where
  "lower_char c =
     (let n = (of_char c :: nat) in if 65 \<le> n \<and> n \<le> 90 then char_of (n + 32) else c)"

text \<open>\<^verbatim>\<open>code.replace(/<\/script>/gi, '<\\/script>')\<close>\<close>

function neutralize :: "string \<Rightarrow> string" where
  "neutralize [] = []"
| "neutralize (c # cs) =
     (if map lower_char (take 9 (c # cs)) = ''</script>''
      then [CHR ''<'', CHR 0x5C] @ ''/script>'' @ neutralize (drop 8 cs)
      else c # neutralize cs)"
  by pat_completeness auto
termination
  by (relation "measure length") auto

text \<open>
  \<^verbatim>\<open>showCode(logs, result, error)\<close>: the text it puts on the code card. For a result that
  is no string it calls \<^verbatim>\<open>JSON.stringify(result, null, 2)\<close>, which throws on a value it
  cannot serialize and gives \<^verbatim>\<open>undefined\<close> for \<^verbatim>\<open>undefined\<close>, an entry that
  \<^verbatim>\<open>lines.join\<close> writes as the empty string.
\<close>

definition showCode :: "string list \<Rightarrow> worker_value \<Rightarrow> jsval \<Rightarrow> exn + string" where
  "showCode logs result error =
     (let lines = (if logs \<noteq> [] then ''/* console.log */'' # map (\<lambda>l. ''> '' @ l) logs @ [[]]
                   else [])
      in and_then
           (if truthy error then
              and_then (to_string error) (\<lambda>s. Inr [''/* error */'', s])
            else
              and_then
                (case result of
                   Unserializable \<Rightarrow> Inl (TypeError ''JSON.stringify cannot serialize the value'')
                 | Json v \<Rightarrow>
                     (case v of
                        JStr s \<Rightarrow> Inr s
                      | JUndefined \<Rightarrow> Inr []
                      | _ \<Rightarrow> Inr (stringify_indented [] v)))
                (\<lambda>s. Inr [''/* result */'', s]))
           (\<lambda>rest. Inr (join [CHR 0x0A] (lines @ rest))))"

text \<open>
  \<^verbatim>\<open>worker.onmessage\<close> on the messages of the worker, with the logs gathered so far: the
  value the promise of \<^verbatim>\<open>toolJsExec\<close> is resolved with, \<open>None\<close> when \<^verbatim>\<open>resolve\<close> is
  never called. A \<^verbatim>\<open>log\<close> message adds a line. On \<^verbatim>\<open>error\<close> and \<^verbatim>\<open>done\<close> the
  handler calls \<^verbatim>\<open>showCode\<close> first; when that throws, the handler ends there, before
  \<^verbatim>\<open>resolve\<close> and \<^verbatim>\<open>worker.terminate()\<close>, and the worker's later messages are still
  received. After \<^verbatim>\<open>resolve\<close> the worker is terminated. (When \<^verbatim>\<open>showCode\<close> has
  returned for a \<^verbatim>\<open>done\<close> message, the result is JSON-like: lemma \<open>showCode_done\<close>.)
\<close>

fun onmessage :: "string list \<Rightarrow> worker_message list \<Rightarrow> jsval option" where
  "onmessage logs [] = None"
| "onmessage logs (WLog a # ms) = onmessage (logs @ [join '' '' a]) ms"
| "onmessage logs (WError err # ms) =
     (case showCode logs (Json JNull) (JStr err) of
        Inl e \<Rightarrow> onmessage logs ms
      | Inr shown \<Rightarrow> Some (JObj [(''logs'', JArr (map JStr logs)), (''error'', JStr err)]))"
| "onmessage logs (WDone r # ms) =
     (case showCode logs r JNull of
        Inl e \<Rightarrow> onmessage logs ms
      | Inr shown \<Rightarrow>
          (case r of
             Json v \<Rightarrow> Some (JObj [(''logs'', JArr (map JStr logs)), (''result'', v)])
           | Unserializable \<Rightarrow> onmessage logs ms))"

text \<open>
  \<^verbatim>\<open>toolJsExec\<close>: \<open>None\<close> when its promise never settles, else how it settles. It rejects
  when the argument cannot be destructured and when \<^verbatim>\<open>replace\<close> is called on a value
  that is no string (inside the executor of the promise); otherwise it is settled by the
  message handler alone.
\<close>

definition toolJsExec :: "env \<Rightarrow> jsval \<Rightarrow> (exn + jsval) option" where
  "toolJsExec E args =
     (case destructure args of
        Inl e \<Rightarrow> Some (Inl e)
      | Inr _ \<Rightarrow>
          (case or_else (get args ''code'') (JStr []) of
             JStr s \<Rightarrow> map_option Inr (onmessage [] (worker E (neutralize s)))
           | _ \<Rightarrow> Some (Inl (TypeError ''code.replace is not a function''))))"

text \<open>
  The \<^verbatim>\<open>switch\<close> of \<^verbatim>\<open>executeTool\<close>: \<open>None\<close> when its promise never settles, else how it
  settles. \<^verbatim>\<open>'Unknown tool: ' + name\<close> converts the name.
\<close>

definition executeTool :: "env \<Rightarrow> jsval \<Rightarrow> jsval \<Rightarrow> (exn + jsval) option" where
  "executeTool E name args =
     (if name = JStr ''web_search'' then Some (toolWebSearch E args)
      else if name = JStr ''aipipe_proxy'' then Some (toolAIPipeProxy E args)
      else if name = JStr ''js_exec'' then toolJsExec E args
      else Some (and_then (to_string name)
                   (\<lambda>n. Inr (JObj [(''error'', JStr (''Unknown tool: '' @ n))]))))"


section \<open>Transcript translation of the Gemini and Anthropic adapters\<close>

text \<open>
  \<^verbatim>\<open>try { parsed = JSON.parse(c); } catch { parsed = { text: String(c) }; }\<close>, where
  \<open>parse\<close> is \<^verbatim>\<open>JSON.parse\<close> on strings; the conversion in the handler can throw again.
\<close>

definition parse_or_text :: "(string \<Rightarrow> exn + jsval) \<Rightarrow> jsval \<Rightarrow> exn + jsval" where
  "parse_or_text parse c =
     (case and_then (to_string c) parse of
        Inr v \<Rightarrow> Inr v
      | Inl e \<Rightarrow> and_then (to_string c) (\<lambda>s. Inr (JObj [(''text'', JStr s)])))"

text \<open>What one message adds to \<open>contents\<close> in \<^verbatim>\<open>toGeminiContents\<close>.\<close>

definition gemini_entry :: "(string \<Rightarrow> exn + jsval) \<Rightarrow> jsval \<Rightarrow> exn + jsval list" where
  "gemini_entry parse m =
     (let role = get m ''role'' in
      if \<not> truthy m \<or> \<not> truthy role then Inr []
      else if role = JStr ''user'' \<or> role = JStr ''assistant'' then
        and_then (to_string (or_else (get m ''content'') (JStr []))) (\<lambda>s.
          Inr [JObj [(''role'', JStr (if role = JStr ''assistant'' then ''model'' else ''user'')),
                     (''parts'', JArr [JObj [(''text'', JStr s)]])]])
      else if role = JStr ''tool'' then
        and_then (parse_or_text parse (get m ''content'')) (\<lambda>parsed.
          Inr [JObj [(''role'', JStr ''tool''),
                     (''parts'', JArr [JObj [(''functionResponse'',
                        JObj [(''name'', or_else (get m ''name'') (JStr ''tool'')),
                              (''response'', parsed)])]])]])
      else Inr [])"

fun toGeminiContents :: "(string \<Rightarrow> exn + jsval) \<Rightarrow> jsval list \<Rightarrow> exn + jsval list" where
  "toGeminiContents parse [] = Inr []"
| "toGeminiContents parse (m # ms) =
     and_then (gemini_entry parse m) (\<lambda>x.
     and_then (toGeminiContents parse ms) (\<lambda>xs. Inr (x @ xs)))"

text \<open>
  What one message adds to \<open>out\<close> in \<^verbatim>\<open>toAnthropicMessages\<close>, and whether it drew a
  random suffix \<open>r\<close> (\<^verbatim>\<open>Math.random().toString(36).slice(2)\<close>) for a missing call id.
\<close>

definition anthropic_entry ::
  "(string \<Rightarrow> exn + jsval) \<Rightarrow> string \<Rightarrow> jsval \<Rightarrow> exn + jsval list \<times> bool" where
  "anthropic_entry parse r m =
     (let role = get m ''role'' in
      if \<not> truthy m \<or> \<not> truthy role then Inr ([], False)
      else if role = JStr ''user'' \<or> role = JStr ''assistant'' then
        and_then (to_string (or_else (get m ''content'') (JStr []))) (\<lambda>s.
          Inr ([JObj [(''role'', role),
                      (''content'', JArr [JObj [(''type'', JStr ''text''), (''text'', JStr s)]])]],
               False))
      else if role = JStr ''tool'' then
        and_then (parse_or_text parse (get m ''content'')) (\<lambda>parsed.
          Inr ([JObj [(''role'', JStr ''user''),
                      (''content'', JArr [JObj
                         [(''type'', JStr ''tool_result''),
                          (''tool_use_id'', or_else (get m ''tool_call_id'') (JStr (''tool_'' @ r))),
                          (''content'', JSON_stringify parsed),
                          (''is_error'', JBool False)]])]],
               \<not> truthy (get m ''tool_call_id'')))
      else Inr ([], False))"

text \<open>\<open>rand k\<close> is the suffix the \<open>k\<close>-th call of \<^verbatim>\<open>Math.random\<close> leads to.\<close>

fun toAnthropicMessages ::
  "(string \<Rightarrow> exn + jsval) \<Rightarrow> (nat \<Rightarrow> string) \<Rightarrow> nat \<Rightarrow> jsval list \<Rightarrow> exn + jsval list" where
  "toAnthropicMessages parse rand k [] = Inr []"
| "toAnthropicMessages parse rand k (m # ms) =
     and_then (anthropic_entry parse (rand k) m) (\<lambda>(x, drew).
     and_then (toAnthropicMessages parse rand (if drew then Suc k else k) ms) (\<lambda>xs.
       Inr (x @ xs)))"

text \<open>The roles that the two translations have a branch for.\<close>

definition translated_role :: "jsval \<Rightarrow> bool" where
  "translated_role m =
     (get m ''role'' = JStr ''user'' \<or> get m ''role'' = JStr ''assistant''
      \<or> get m ''role'' = JStr ''tool'')"

text \<open>A transcript with a system message, a message without role and a \<^verbatim>\<open>null\<close>; a parser stub.\<close>

definition adapter_transcript :: "jsval list" where
  "adapter_transcript =
     [JObj [(''role'', JStr ''system''), (''content'', JStr ''be brief'')],
      JObj [(''role'', JStr ''user''), (''content'', JStr ''hi'')],
      JObj [(''content'', JStr ''no role'')],
      JNull,
      JObj [(''role'', JStr ''assistant''), (''content'', JStr [])],
      JObj [(''role'', JStr ''developer''), (''content'', JStr ''x'')],
      JObj [(''role'', JStr ''tool''), (''name'', JStr ''web_search''), (''content'', JStr ''{}'')]]"

definition parse_stub :: "string \<Rightarrow> exn + jsval" where
  "parse_stub s = (if s = ''{}'' then Inr (JObj []) else Inl (Exn ''SyntaxError'' ''Unexpected token''))"

definition adapter_kept :: "jsval list" where
  "adapter_kept =
     [JObj [(''role'', JStr ''user''), (''content'', JStr ''hi'')],
      JObj [(''role'', JStr ''assistant''), (''content'', JStr [])],
      JObj [(''role'', JStr ''tool''), (''name'', JStr ''web_search''), (''content'', JStr ''{}'')]]"

text \<open>
  Stubs for concrete runs of the tools: an environment without keys in which every fetch
  fails; a search engine that answers every request with five items; a query for
  \<open>x\<close> with \<open>num = 3\<close>; DuckDuckGo and Wikipedia answers with two related topics and
  one summary.
\<close>

definition result_item :: "nat \<Rightarrow> jsval" where
  "result_item n =
     JObj [(''kind'', JStr ''customsearch#result''),
           (''title'', JStr (''title '' @ show_nat n)),
           (''link'', JStr (''https://example.org/'' @ show_nat n)),
           (''snippet'', JStr (''snippet '' @ show_nat n))]"

definition base_env :: env where
  "base_env =
     \<lparr>googleKey = [], googleCx = [], apiKey = [], provider = ''openai'',
      fetch = (\<lambda>r. Inl (Exn ''TypeError'' ''Failed to fetch'')),
      encodeURIComponent = Inr,
      string_to_number = (\<lambda>s. None),
      aipipe_profile = Inl (Exn ''TypeError'' ''Failed to fetch dynamically imported module''),
      worker = (\<lambda>code. [WDone (Json JUndefined)])\<rparr>"

definition json_response :: "jsval \<Rightarrow> response" where
  "json_response v =
     \<lparr>ok = True, status = 200, statusText = ''OK'', text_body = Inr (stringify v), json_body = Inr v\<rparr>"

definition google_env :: env where
  "google_env =
     base_env\<lparr>googleKey := ''key'', googleCx := ''cx'',
       fetch := (\<lambda>r. Inr (json_response (JObj [(''items'', JArr (map result_item [1, 2, 3, 4, 5]))])))\<rparr>"

definition search_x_3 :: jsval where
  "search_x_3 = JObj [(''q'', JStr ''x''), (''num'', JNum 3)]"

definition ddg_answer :: jsval where
  "ddg_answer =
     JObj [(''AbstractText'', JStr []),
           (''RelatedTopics'', JArr
              [JObj [(''Text'', JStr ''X - first''), (''FirstURL'', JStr ''https://d/1'')],
               JObj [(''Text'', JStr ''Y - second''), (''FirstURL'', JStr ''https://d/2'')]])]"

definition wiki_answer :: jsval where
  "wiki_answer =
     JObj [(''title'', JStr ''X''), (''extract'', JStr ''X is a letter.''),
           (''content_urls'', JObj [(''desktop'', JObj [(''page'', JStr ''https://w/X'')])])]"

definition fallback_env :: env where
  "fallback_env =
     base_env\<lparr>fetch := (\<lambda>r. if take 27 (url r) = ''https://api.duckduckgo.com/''
                             then Inr (json_response ddg_answer)
                             else Inr (json_response wiki_answer))\<rparr>"

definition ddg_items :: "jsval list" where
  "ddg_items =
     [JObj [(''title'', JStr ''X''), (''link'', JStr ''https://d/1''), (''snippet'', JStr ''X - first'')],
      JObj [(''title'', JStr ''Y''), (''link'', JStr ''https://d/2''), (''snippet'', JStr ''Y - second'')]]"

definition wiki_item :: jsval where
  "wiki_item =
     JObj [(''title'', JStr ''X''), (''link'', JStr ''https://w/X''),
           (''snippet'', JStr ''X is a letter.'')]"

definition returned_items :: "exn + jsval \<Rightarrow> jsval list" where
  "returned_items r = (case r of Inl e \<Rightarrow> [] | Inr v \<Rightarrow> arr_elems (get v ''items''))"


text \<open>A page whose sandbox worker posts the given messages, whatever the code.\<close>

definition sandbox_env :: "worker_message list \<Rightarrow> env" where
  "sandbox_env ms = base_env\<lparr>worker := (\<lambda>code. ms)\<rparr>"

text \<open>
  A transcript as the loop builds it: a user turn, an assistant turn whose tool-call array
  holds a \<^verbatim>\<open>null\<close> and one call with object arguments beside blank text, the tool's
  answer with object content, and an assistant turn with an empty tool-call array.
\<close>

definition example_transcript :: "jsval list" where
  "example_transcript =
     [JObj [(''role'', JStr ''user''), (''content'', JStr ''hi'')],
      JObj [(''role'', JStr ''assistant''), (''content'', JStr ''  ''),
            (''tool_calls'', JArr [JNull, JObj [(''id'', JStr ''c1''),
               (''function'', JObj [(''name'', JStr ''web_search''),
                                    (''arguments'', JObj [(''q'', JStr ''x'')])])]])],
      JObj [(''role'', JStr ''tool''), (''tool_call_id'', JStr ''c1''),
            (''name'', JStr ''web_search''), (''content'', JObj [(''items'', JArr [])])],
      JObj [(''role'', JStr ''assistant''), (''content'', JStr '' done ''),
            (''tool_calls'', JArr [])]]"

definition example_sanitized :: "jsval list" where
  "example_sanitized =
     [JObj [(''role'', JStr ''user''), (''content'', JStr ''hi'')],
      JObj [(''role'', JStr ''assistant''),
            (''tool_calls'', JArr [JObj [(''id'', JStr ''c1''), (''type'', JStr ''function''),
               (''function'', JObj [(''name'', JStr ''web_search''),
                  (''arguments'', JStr [CHR ''{'', CHR 0x22, CHR ''q'', CHR 0x22, CHR '':'',
                                        CHR 0x22, CHR ''x'', CHR 0x22, CHR ''}''])])]]),
            (''content'', JNull)],
      JObj [(''role'', JStr ''tool''), (''tool_call_id'', JStr ''c1''),
            (''name'', JStr ''web_search''),
            (''content'', JStr [CHR ''{'', CHR 0x22, CHR ''i'', CHR ''t'', CHR ''e'', CHR ''m'',
                                CHR ''s'', CHR 0x22, CHR '':'', CHR ''['', CHR '']'', CHR ''}''])],
      JObj [(''role'', JStr ''assistant''), (''content'', JStr '' done '')]]"

text \<open>
  A store holding \<open>example_transcript\<close>; the transcript array is cell 11.
\<close>

definition example_heap :: heap where
  "example_heap =
     [CObj [(''role'', HStr ''user''), (''content'', HStr ''hi'')],
      CObj [(''q'', HStr ''x'')],
      CObj [(''name'', HStr ''web_search''), (''arguments'', HRef 1)],
      CObj [(''id'', HStr ''c1''), (''function'', HRef 2)],
      CArr [HNull, HRef 3],
      CObj [(''role'', HStr ''assistant''), (''content'', HStr ''  ''), (''tool_calls'', HRef 4)],
      CArr [],
      CObj [(''items'', HRef 6)],
      CObj [(''role'', HStr ''tool''), (''tool_call_id'', HStr ''c1''),
            (''name'', HStr ''web_search''), (''content'', HRef 7)],
      CArr [],
      CObj [(''role'', HStr ''assistant''), (''content'', HStr '' done ''),
            (''tool_calls'', HRef 9)],
      CArr [HRef 0, HRef 5, HRef 8, HRef 10]]"

text \<open>The same store after the sanitizer has run on cell 11.\<close>

definition example_heap_after :: heap where
  "example_heap_after =
     example_heap @
     [CObj [(''role'', HStr ''user''), (''content'', HStr ''hi'')],
      CObj [(''role'', HStr ''assistant''), (''tool_calls'', HRef 17), (''content'', HNull)],
      CArr [HRef 3],
      CObj [(''name'', HStr ''web_search''),
            (''arguments'', HStr [CHR ''{'', CHR 0x22, CHR ''q'', CHR 0x22, CHR '':'', CHR 0x22,
                                  CHR ''x'', CHR 0x22, CHR ''}''])],
      CObj [(''id'', HStr ''c1''), (''type'', HStr ''function''), (''function'', HRef 15)],
      CArr [HRef 16],
      CObj [(''role'', HStr ''tool''), (''tool_call_id'', HStr ''c1''),
            (''name'', HStr ''web_search''),
            (''content'', HStr [CHR ''{'', CHR 0x22, CHR ''i'', CHR ''t'', CHR ''e'', CHR ''m'',
                                CHR ''s'', CHR 0x22, CHR '':'', CHR ''['', CHR '']'', CHR ''}''])],
      CObj [(''role'', HStr ''assistant''), (''content'', HStr '' done '')],
      CArr [],
      CArr [HRef 12, HRef 13, HRef 18, HRef 19]]"

section \<open>Properties of the sanitizer\<close>

lemma and_then_Inr: "and_then r f = Inr y \<Longrightarrow> \<exists>x. r = Inr x \<and> f x = Inr y"
  by (cases r) simp_all

lemma and_then_unit: "and_then r Inr = r"
  by (cases r) simp_all

lemma dropWhile_id_iff: "xs = [] \<or> \<not> P (hd xs) \<Longrightarrow> dropWhile P xs = xs"
  by (cases xs) auto

lemma dropWhile_hd: "dropWhile P xs = [] \<or> \<not> P (hd (dropWhile P xs))"
  using hd_dropWhile by blast

lemma trim_trim: "trim (trim s) = trim s"
proof -
  define u where "u = dropWhile is_ws s"
  define w where "w = dropWhile is_ws (rev u)"
  have t: "trim s = rev w" by (simp add: trim_def u_def w_def)
  have w_ok: "w = [] \<or> \<not> is_ws (hd w)" unfolding w_def by (rule dropWhile_hd)
  have u_ok: "u = [] \<or> \<not> is_ws (hd u)" unfolding u_def by (rule dropWhile_hd)
  have "\<exists>p. rev u = p @ w" unfolding w_def
    by (metis takeWhile_dropWhile_id)
  then obtain p where p: "rev u = p @ w" by blast
  then have u: "u = rev w @ rev p" by (metis rev_append rev_rev_ident)
  have "rev w = [] \<or> \<not> is_ws (hd (rev w))"
  proof (cases "w = []")
    case True then show ?thesis by simp
  next
    case False
    then have "hd (rev w) = hd u" using u by simp
    moreover have "u \<noteq> []" using False u by simp
    ultimately show ?thesis using u_ok by simp
  qed
  then have d1: "dropWhile is_ws (rev w) = rev w" by (rule dropWhile_id_iff)
  have d2: "dropWhile is_ws w = w" using w_ok by (rule dropWhile_id_iff)
  show ?thesis unfolding t by (simp add: trim_def d1 d2)
qed

lemma get_prop_Inr: "get_prop m k = Inr v \<Longrightarrow> \<not> nullish m \<and> v = get m k"
  by (auto simp: get_prop_def split: if_splits)

lemma truthy_stc: "truthy (sanitize_tool_call t)"
  by (simp add: sanitize_tool_call_def Let_def)

lemma JSON_stringify_str: "v \<noteq> JUndefined \<Longrightarrow> is_string (JSON_stringify v)"
  by (simp add: JSON_stringify_def)

lemma or_else_obj_def: "or_else a (JObj []) \<noteq> JUndefined"
  by (cases a) (auto simp: or_else_def)

lemma stc_idem: "sanitize_tool_call (sanitize_tool_call t) = sanitize_tool_call t"
  by (simp add: sanitize_tool_call_def Let_def JSON_stringify_str or_else_obj_def)

lemma asString_is_string: "is_string (asString (coalesce c (JStr [])))"
  by (cases c) (auto simp: asString_def coalesce_def JSON_stringify_def)

lemma asString_fix: "is_string v \<Longrightarrow> asString (coalesce v (JStr [])) = v"
  by (cases v) (auto simp: asString_def coalesce_def)


lemma sm_assistant_calls:
  assumes "\<not> nullish m" "get m ''role'' = JStr ''assistant''"
    "truthy_elems (get m ''tool_calls'') \<noteq> []"
    "to_string (coalesce (get m ''content'') (JStr [])) = Inr s"
  shows "sanitize_message m =
     Inr (JObj [(''role'', JStr ''assistant''),
                (''tool_calls'', JArr (map sanitize_tool_call (truthy_elems (get m ''tool_calls'')))),
                (''content'', if trim s \<noteq> [] then JStr (trim s) else JNull)])"
  using assms by (simp add: sanitize_message_def get_prop_def Let_def)

lemma sm_assistant_throws:
  assumes "\<not> nullish m" "get m ''role'' = JStr ''assistant''"
    "truthy_elems (get m ''tool_calls'') \<noteq> []"
    "to_string (coalesce (get m ''content'') (JStr [])) = Inl e"
  shows "sanitize_message m = Inl e"
  using assms by (simp add: sanitize_message_def get_prop_def Let_def)

lemma sm_assistant_plain:
  assumes "\<not> nullish m" "get m ''role'' = JStr ''assistant''"
    "truthy_elems (get m ''tool_calls'') = []"
  shows "sanitize_message m =
     Inr (JObj [(''role'', JStr ''assistant''),
                (''content'', asString (coalesce (get m ''content'') (JStr [])))])"
  using assms by (simp add: sanitize_message_def get_prop_def Let_def)

lemma sm_tool:
  assumes "\<not> nullish m" "get m ''role'' = JStr ''tool''"
  shows "sanitize_message m =
     Inr (JObj ([(''role'', JStr ''tool''), (''tool_call_id'', get m ''tool_call_id'')]
                @ (if truthy (get m ''name'') then [(''name'', get m ''name'')] else [])
                @ [(''content'', asString (coalesce (get m ''content'') (JStr [])))]))"
  using assms by (simp add: sanitize_message_def get_prop_def Let_def)

lemma sm_other:
  assumes "\<not> nullish m" "get m ''role'' \<noteq> JStr ''assistant''" "get m ''role'' \<noteq> JStr ''tool''"
  shows "sanitize_message m =
     Inr (JObj ([(''role'', get m ''role''),
                 (''content'', asString (coalesce (get m ''content'') (JStr [])))]
                @ (if truthy (get m ''name'') then [(''name'', get m ''name'')] else [])))"
  using assms by (simp add: sanitize_message_def get_prop_def Let_def)

lemma sm_nullish: "nullish m \<Longrightarrow> \<exists>e. sanitize_message m = Inl e"
  by (simp add: sanitize_message_def get_prop_def)

lemma filter_truthy_stc: "filter truthy (map sanitize_tool_call tc) = map sanitize_tool_call tc"
  by (induction tc) (simp_all add: truthy_stc)

lemma map_stc_idem: "map sanitize_tool_call (map sanitize_tool_call tc) = map sanitize_tool_call tc"
  by (simp add: stc_idem)

lemma sanitize_message_idem:
  assumes "sanitize_message m = Inr out"
  shows "sanitize_message out = Inr out"
proof -
  have nn: "\<not> nullish m" using assms sm_nullish by fastforce
  let ?c = "coalesce (get m ''content'') (JStr [])"
  consider (calls) "get m ''role'' = JStr ''assistant''" "truthy_elems (get m ''tool_calls'') \<noteq> []"
    | (plain) "get m ''role'' = JStr ''assistant''" "truthy_elems (get m ''tool_calls'') = []"
    | (tool) "get m ''role'' = JStr ''tool''"
    | (other) "get m ''role'' \<noteq> JStr ''assistant''" "get m ''role'' \<noteq> JStr ''tool''"
    by blast
  then show ?thesis
  proof cases
    case calls
    obtain s where s: "to_string ?c = Inr s"
      using assms sm_assistant_throws [OF nn calls] by (cases "to_string ?c") auto
    have out: "out = JObj [(''role'', JStr ''assistant''),
                (''tool_calls'', JArr (map sanitize_tool_call (truthy_elems (get m ''tool_calls'')))),
                (''content'', if trim s \<noteq> [] then JStr (trim s) else JNull)]"
      using assms sm_assistant_calls [OF nn calls s] by simp
    have a: "\<not> nullish out" "get out ''role'' = JStr ''assistant''" by (simp_all add: out)
    have b: "truthy_elems (get out ''tool_calls'') = map sanitize_tool_call (truthy_elems (get m ''tool_calls''))"
      by (simp add: out filter_truthy_stc)
    have b': "truthy_elems (get out ''tool_calls'') \<noteq> []" using b calls(2) by simp
    have c: "to_string (coalesce (get out ''content'') (JStr [])) = Inr (trim s)"
      by (simp add: out coalesce_def)
    show ?thesis
      using sm_assistant_calls [OF a b' c] by (simp add: filter_truthy_stc stc_idem trim_trim out)
  next
    case plain
    have out: "out = JObj [(''role'', JStr ''assistant''), (''content'', asString ?c)]"
      using assms sm_assistant_plain [OF nn plain] by simp
    have a: "\<not> nullish out" "get out ''role'' = JStr ''assistant''"
      "truthy_elems (get out ''tool_calls'') = []" by (simp_all add: out)
    show ?thesis using sm_assistant_plain [OF a]
      by (simp add: out asString_fix asString_is_string)
  next
    case tool
    have out: "out = JObj ([(''role'', JStr ''tool''), (''tool_call_id'', get m ''tool_call_id'')]
                @ (if truthy (get m ''name'') then [(''name'', get m ''name'')] else [])
                @ [(''content'', asString ?c)])"
      using assms sm_tool [OF nn tool] by simp
    have a: "\<not> nullish out" "get out ''role'' = JStr ''tool''" by (simp_all add: out)
    show ?thesis using sm_tool [OF a]
      by (simp add: out asString_fix asString_is_string)
  next
    case other
    have out: "out = JObj ([(''role'', get m ''role''), (''content'', asString ?c)]
                @ (if truthy (get m ''name'') then [(''name'', get m ''name'')] else []))"
      using assms sm_other [OF nn other] by simp
    have a: "\<not> nullish out" "get out ''role'' \<noteq> JStr ''assistant''" "get out ''role'' \<noteq> JStr ''tool''"
      using other by (simp_all add: out)
    show ?thesis using sm_other [OF a]
      by (simp add: out asString_fix asString_is_string)
  qed
qed

lemma sanitize_idem_Inr:
  "sanitizeMessagesForOpenAI ms = Inr outs \<Longrightarrow> sanitizeMessagesForOpenAI outs = Inr outs"
proof (induction ms arbitrary: outs)
  case Nil
  then show ?case by simp
next
  case (Cons m ms)
  from Cons.prems obtain out outs' where
    o: "sanitize_message m = Inr out" and os: "sanitizeMessagesForOpenAI ms = Inr outs'"
    and eq: "outs = out # outs'"
    by (auto split: sum.splits)
  show ?case using sanitize_message_idem [OF o] Cons.IH [OF os] by (simp add: eq)
qed

lemma sanitize_pointwise:
  "sanitizeMessagesForOpenAI ms = Inr outs \<Longrightarrow>
     length outs = length ms \<and> (\<forall>i < length ms. sanitize_message (ms ! i) = Inr (outs ! i))"
proof (induction ms arbitrary: outs)
  case Nil
  then show ?case by simp
next
  case (Cons m ms)
  from Cons.prems obtain out outs' where
    o: "sanitize_message m = Inr out" and os: "sanitizeMessagesForOpenAI ms = Inr outs'"
    and eq: "outs = out # outs'"
    by (auto split: sum.splits)
  from Cons.IH [OF os] have len: "length outs' = length ms"
    and pt: "\<And>i. i < length ms \<Longrightarrow> sanitize_message (ms ! i) = Inr (outs' ! i)"
    by simp_all
  show ?case
  proof (intro conjI allI impI)
    show "length outs = length (m # ms)" by (simp add: eq len)
  next
    fix i assume "i < length (m # ms)"
    then show "sanitize_message ((m # ms) ! i) = Inr (outs ! i)"
      by (cases i) (simp_all add: eq o pt)
  qed
qed

lemma example_sanitized_eq: "sanitizeMessagesForOpenAI example_transcript = Inr example_sanitized"
  unfolding example_transcript_def example_sanitized_def by code_simp

lemma sanitize_message_returns:
  assumes "\<not> nullish m" and "to_string (coalesce (get m ''content'') (JStr [])) = Inr s"
  shows "\<exists>out. sanitize_message m = Inr out"
proof -
  consider (calls) "get m ''role'' = JStr ''assistant''" "truthy_elems (get m ''tool_calls'') \<noteq> []"
    | (plain) "get m ''role'' = JStr ''assistant''" "truthy_elems (get m ''tool_calls'') = []"
    | (tool) "get m ''role'' = JStr ''tool''"
    | (other) "get m ''role'' \<noteq> JStr ''assistant''" "get m ''role'' \<noteq> JStr ''tool''"
    by blast
  then show ?thesis
  proof cases
    case calls
    then show ?thesis using sm_assistant_calls [OF assms(1) calls assms(2)] by simp
  next
    case plain
    then show ?thesis using sm_assistant_plain [OF assms(1) plain] by simp
  next
    case tool
    then show ?thesis using sm_tool [OF assms(1) tool] by simp
  next
    case other
    then show ?thesis using sm_other [OF assms(1) other] by simp
  qed
qed

lemma sanitize_returns:
  "\<forall>m \<in> set ms. \<not> nullish m \<and> (\<exists>s. to_string (coalesce (get m ''content'') (JStr [])) = Inr s)
     \<Longrightarrow> \<exists>outs. sanitizeMessagesForOpenAI ms = Inr outs"
proof (induction ms)
  case Nil
  then show ?case by simp
next
  case (Cons m ms)
  from Cons.prems obtain s where "\<not> nullish m"
    and "to_string (coalesce (get m ''content'') (JStr [])) = Inr s" by auto
  then obtain out where o: "sanitize_message m = Inr out"
    using sanitize_message_returns by blast
  from Cons.IH Cons.prems obtain outs where "sanitizeMessagesForOpenAI ms = Inr outs" by auto
  then show ?case by (simp add: o)
qed

lemma sanitize_shape:
  assumes "sanitizeMessagesForOpenAI ms = Inr outs" and "i < length ms"
  shows "length outs = length ms \<and> get (outs ! i) ''tool_calls'' \<noteq> JArr [] \<and>
     (if get (ms ! i) ''role'' = JStr ''assistant'' \<and> truthy_elems (get (ms ! i) ''tool_calls'') \<noteq> []
      then get (outs ! i) ''tool_calls''
             = JArr (map sanitize_tool_call (truthy_elems (get (ms ! i) ''tool_calls'')))
           \<and> (\<exists>s. to_string (coalesce (get (ms ! i) ''content'') (JStr [])) = Inr s
                \<and> (get (outs ! i) ''content'' = JNull) = (trim s = [])
                \<and> (trim s \<noteq> [] \<longrightarrow> get (outs ! i) ''content'' = JStr (trim s)))
      else \<not> has_prop (outs ! i) ''tool_calls'')"
proof -
  let ?m = "ms ! i" and ?out = "outs ! i"
  let ?c = "coalesce (get ?m ''content'') (JStr [])"
  from sanitize_pointwise [OF assms(1)] assms(2)
  have len: "length outs = length ms" and sm: "sanitize_message ?m = Inr ?out"
    by simp_all
  have nn: "\<not> nullish ?m" using sm sm_nullish by fastforce
  consider (calls) "get ?m ''role'' = JStr ''assistant''" "truthy_elems (get ?m ''tool_calls'') \<noteq> []"
    | (plain) "get ?m ''role'' = JStr ''assistant''" "truthy_elems (get ?m ''tool_calls'') = []"
    | (tool) "get ?m ''role'' = JStr ''tool''"
    | (other) "get ?m ''role'' \<noteq> JStr ''assistant''" "get ?m ''role'' \<noteq> JStr ''tool''"
    by blast
  then show ?thesis
  proof cases
    case calls
    obtain s where s: "to_string ?c = Inr s"
      using sm sm_assistant_throws [OF nn calls] by (cases "to_string ?c") auto
    have out: "?out = JObj [(''role'', JStr ''assistant''),
                (''tool_calls'', JArr (map sanitize_tool_call (truthy_elems (get ?m ''tool_calls'')))),
                (''content'', if trim s \<noteq> [] then JStr (trim s) else JNull)]"
      using sm sm_assistant_calls [OF nn calls s] by simp
    have "\<exists>s. to_string ?c = Inr s \<and> (get ?out ''content'' = JNull) = (trim s = [])
            \<and> (trim s \<noteq> [] \<longrightarrow> get ?out ''content'' = JStr (trim s))"
      using s by (intro exI [of _ s]) (simp add: out)
    moreover have "get ?out ''tool_calls''
        = JArr (map sanitize_tool_call (truthy_elems (get ?m ''tool_calls'')))"
      by (simp add: out)
    moreover have "get ?out ''tool_calls'' \<noteq> JArr []" using calls(2) by (simp add: out)
    ultimately show ?thesis using calls len by simp
  next
    case plain
    have out: "?out = JObj [(''role'', JStr ''assistant''), (''content'', asString ?c)]"
      using sm sm_assistant_plain [OF nn plain] by simp
    have "get ?out ''tool_calls'' \<noteq> JArr []" "\<not> has_prop ?out ''tool_calls''"
      by (auto simp: out)
    then show ?thesis using plain len by simp
  next
    case tool
    have out: "?out = JObj ([(''role'', JStr ''tool''), (''tool_call_id'', get ?m ''tool_call_id'')]
                @ (if truthy (get ?m ''name'') then [(''name'', get ?m ''name'')] else [])
                @ [(''content'', asString ?c)])"
      using sm sm_tool [OF nn tool] by simp
    have "get ?out ''tool_calls'' \<noteq> JArr []" "\<not> has_prop ?out ''tool_calls''"
      by (auto simp: out)
    then show ?thesis using tool len by simp
  next
    case other
    have out: "?out = JObj ([(''role'', get ?m ''role''), (''content'', asString ?c)]
                @ (if truthy (get ?m ''name'') then [(''name'', get ?m ''name'')] else []))"
      using sm sm_other [OF nn other] by simp
    have "get ?out ''tool_calls'' \<noteq> JArr []" "\<not> has_prop ?out ''tool_calls''"
      by (auto simp: out)
    then show ?thesis using other(1) len by simp
  qed
qed

text \<open>
  C2. The sanitizer returns for every transcript whose messages are not nullish and whose
  contents convert to a string. Whenever it returns, it returns one message per input
  message, and no output message has an empty array as \<^verbatim>\<open>tool_calls\<close>. An assistant
  message whose \<^verbatim>\<open>tool_calls\<close> array has a truthy entry is sent with exactly those
  entries, reshaped, a non-empty array, and its content is \<^verbatim>\<open>null\<close> exactly when the
  trimmed text of the original content is empty and the trimmed text otherwise. Every other
  message is sent without a \<^verbatim>\<open>tool_calls\<close> field.
\<close>

theorem sanitize_assistant_tool_calls:
  "((\<forall>m \<in> set ms. \<not> nullish m
         \<and> (\<exists>s. to_string (coalesce (get m ''content'') (JStr [])) = Inr s))
      \<longrightarrow> (\<exists>outs. sanitizeMessagesForOpenAI ms = Inr outs))
   \<and> (sanitizeMessagesForOpenAI ms = Inr outs \<and> i < length ms \<longrightarrow>
        length outs = length ms \<and> get (outs ! i) ''tool_calls'' \<noteq> JArr [] \<and>
        (if get (ms ! i) ''role'' = JStr ''assistant''
            \<and> truthy_elems (get (ms ! i) ''tool_calls'') \<noteq> []
         then get (outs ! i) ''tool_calls''
                = JArr (map sanitize_tool_call (truthy_elems (get (ms ! i) ''tool_calls'')))
              \<and> (\<exists>s. to_string (coalesce (get (ms ! i) ''content'') (JStr [])) = Inr s
                   \<and> (get (outs ! i) ''content'' = JNull) = (trim s = [])
                   \<and> (trim s \<noteq> [] \<longrightarrow> get (outs ! i) ''content'' = JStr (trim s)))
         else \<not> has_prop (outs ! i) ''tool_calls''))"
  using sanitize_returns [of ms] sanitize_shape [of ms outs i] by blast

theorem sanitize_assistant_tool_calls_witness:
  "sanitizeMessagesForOpenAI example_transcript = Inr example_sanitized
   \<and> (1::nat) < length example_transcript
   \<and> get (example_transcript ! 1) ''role'' = JStr ''assistant''
   \<and> truthy_elems (get (example_transcript ! 1) ''tool_calls'') \<noteq> []
   \<and> length example_sanitized = length example_transcript
   \<and> get (example_sanitized ! 1) ''tool_calls'' \<noteq> JArr []
   \<and> get (example_sanitized ! 1) ''tool_calls''
       = JArr (map sanitize_tool_call (truthy_elems (get (example_transcript ! 1) ''tool_calls'')))
   \<and> get (example_sanitized ! 1) ''content'' = JNull"
proof -
  have i: "(1::nat) < length example_transcript" by (simp add: example_transcript_def)
  have r: "get (example_transcript ! 1) ''role'' = JStr ''assistant''"
    and t: "truthy_elems (get (example_transcript ! 1) ''tool_calls'') \<noteq> []"
    by (simp_all add: example_transcript_def)
  have c: "get (example_sanitized ! 1) ''content'' = JNull"
    by (simp add: example_sanitized_def)
  from sanitize_assistant_tool_calls [of example_transcript example_sanitized 1]
    example_sanitized_eq i r t
  have "length example_sanitized = length example_transcript
      \<and> get (example_sanitized ! 1) ''tool_calls'' \<noteq> JArr []
      \<and> get (example_sanitized ! 1) ''tool_calls''
          = JArr (map sanitize_tool_call (truthy_elems (get (example_transcript ! 1) ''tool_calls'')))"
    by simp
  with example_sanitized_eq i r t c show ?thesis by simp
qed

text \<open>
  C3. Sanitizing is idempotent: sanitizing the sanitizer's output gives that output
  again; when the first pass throws there is nothing to sanitize a second time.
\<close>

theorem sanitize_idempotent:
  "and_then (sanitizeMessagesForOpenAI ms) sanitizeMessagesForOpenAI
     = sanitizeMessagesForOpenAI ms"
  by (cases "sanitizeMessagesForOpenAI ms") (simp_all add: sanitize_idem_Inr)

theorem sanitize_idempotent_witness:
  "sanitizeMessagesForOpenAI example_transcript = Inr example_sanitized
   \<and> sanitizeMessagesForOpenAI example_sanitized = Inr example_sanitized"
proof -
  have "and_then (sanitizeMessagesForOpenAI example_transcript) sanitizeMessagesForOpenAI
          = sanitizeMessagesForOpenAI example_transcript"
    by (rule sanitize_idempotent)
  then have "sanitizeMessagesForOpenAI example_sanitized = Inr example_sanitized"
    by (simp add: example_sanitized_eq)
  with example_sanitized_eq show ?thesis by simp
qed

section \<open>Properties of the agent loop\<close>

lemma tool_step_frame:
  "llm_calls (snd (tool_step d st tc)) = llm_calls st
   \<and> alerts (snd (tool_step d st tc)) = alerts st
   \<and> running (snd (tool_step d st tc)) = running st"
  by (simp add: tool_step_def Let_def split: sum.splits)

lemma tool_steps_frame:
  "llm_calls (snd (tool_steps d st tcs)) = llm_calls st
   \<and> alerts (snd (tool_steps d st tcs)) = alerts st
   \<and> running (snd (tool_steps d st tcs)) = running st"
proof (induction tcs arbitrary: st)
  case Nil
  then show ?case by simp
next
  case (Cons tc tcs)
  obtain r st' where ts: "tool_step d st tc = (r, st')" by (cases "tool_step d st tc")
  have f: "llm_calls st' = llm_calls st \<and> alerts st' = alerts st \<and> running st' = running st"
    using tool_step_frame [of d st tc] by (simp add: ts)
  show ?case
  proof (cases r)
    case None
    then show ?thesis using Cons.IH [of st'] f by (simp add: ts)
  next
    case (Some e)
    then show ?thesis using f by (simp add: ts)
  qed
qed

lemma render_reply_frame:
  "render_reply msg st = Inr st' \<Longrightarrow>
     llm_calls st' = llm_calls st \<and> alerts st' = alerts st \<and> running st' = running st
     \<and> messages st' = messages st"
  by (cases "to_string (get msg ''content'')")
     (auto simp: render_reply_def addMessage_def split: if_splits)

lemma run_tools_frame:
  "llm_calls (snd (run_tools d st tcs)) = llm_calls st
   \<and> alerts (snd (run_tools d st tcs)) = alerts st
   \<and> running (snd (run_tools d st tcs)) = running st"
  using tool_steps_frame [of d st tcs]
  by (cases "tool_steps d st tcs") (auto simp: run_tools_def split: option.splits)

lemma handle_reply_frame:
  "llm_calls (snd (handle_reply d st msg)) = llm_calls st
   \<and> alerts (snd (handle_reply d st msg)) = alerts st
   \<and> running (snd (handle_reply d st msg)) = running st"
proof -
  let ?tcs = "truthy_elems (get msg ''tool_calls'')"
  let ?st2 = "st\<lparr>messages := messages st @ [assistant_message msg ?tcs]\<rparr>"
  show ?thesis
  proof (cases "render_reply msg ?st2")
    case (Inl e)
    then show ?thesis by (simp add: handle_reply_def Let_def)
  next
    case (Inr st3)
    from render_reply_frame [OF Inr] run_tools_frame [of d st3 ?tcs] Inr
    show ?thesis by (simp add: handle_reply_def Let_def)
  qed
qed

lemma iteration_frame:
  "llm_calls (snd (iteration d st)) = Suc (llm_calls st)
   \<and> alerts (snd (iteration d st)) = alerts st
   \<and> running (snd (iteration d st)) = running st"
  using handle_reply_frame [of d "st\<lparr>llm_calls := Suc (llm_calls st)\<rparr>"]
  by (simp add: iteration_def Let_def split: sum.splits)

lemma agent_while_frame:
  "llm_calls (snd (agent_while d turns st)) \<le> llm_calls st + (8 - turns)
   \<and> alerts (snd (agent_while d turns st)) = alerts st
   \<and> running (snd (agent_while d turns st)) = running st"
proof (induction d turns st rule: agent_while.induct)
  case (1 d turns st)
  show ?case
  proof (cases "turns < 8")
    case False
    then show ?thesis by (simp add: agent_while.simps [of d turns st])
  next
    case True
    obtain f st' where it: "iteration d st = (f, st')" by (cases "iteration d st")
    have fr: "llm_calls st' = Suc (llm_calls st)" "alerts st' = alerts st" "running st' = running st"
      using iteration_frame [of d st] by (simp_all add: it)
    show ?thesis
    proof (cases f)
      case Continue
      have eq: "agent_while d turns st = agent_while d (Suc turns) st'"
        using True by (simp add: agent_while.simps [of d turns st] it Continue)
      have "llm_calls (snd (agent_while d (Suc turns) st')) \<le> llm_calls st' + (8 - Suc turns)"
        and "alerts (snd (agent_while d (Suc turns) st')) = alerts st'"
        and "running (snd (agent_while d (Suc turns) st')) = running st'"
        using "1.IH" [OF True it [symmetric] Continue] by simp_all
      then show ?thesis unfolding eq using fr True by auto
    next
      case Break
      then show ?thesis using fr True by (simp add: agent_while.simps [of d turns st] it)
    next
      case (Throw e)
      then show ?thesis using fr True by (simp add: agent_while.simps [of d turns st] it)
    qed
  qed
qed

lemma agentLoop_at_most_8: "llm_calls (agentLoop d st) \<le> llm_calls st + 8"
proof (cases "running st")
  case True
  then show ?thesis by (simp add: agentLoop_def)
next
  case False
  obtain r st' where w: "agent_while d 0 (setBusy True st) = (r, st')"
    by (cases "agent_while d 0 (setBusy True st)")
  have "llm_calls (snd (agent_while d 0 (setBusy True st))) \<le> llm_calls (setBusy True st) + 8"
    using agent_while_frame [of d 0 "setBusy True st"] by simp
  then have "llm_calls st' \<le> llm_calls st + 8"
    unfolding w by (simp add: setBusy_def)
  then show ?thesis using False
    by (cases r) (simp_all add: agentLoop_def w, simp_all add: setBusy_def addAlert_def)
qed

lemma getAssistantMessage_reply:
  "getAssistantMessage (reply c tcs)
     = Inr (JObj [(''role'', JStr ''assistant''), (''content'', c), (''tool_calls'', JArr tcs)])"
  by (simp add: getAssistantMessage_def reply_def get_prop_def Let_def)

lemma truthy_reply: "truthy (reply c tcs)"
  by (simp add: reply_def)

lemma tool_calls_of_reply: "tool_calls_of (reply c tcs) = Some (filter truthy tcs)"
  by (simp add: tool_calls_of_def truthy_reply getAssistantMessage_reply)

lemma content_of_reply: "content_of (reply c tcs) = c"
  by (simp add: content_of_def getAssistantMessage_reply)

lemma iteration_of_reply:
  assumes "tool_calls_of (call_llm d st) = Some tcs"
  shows "\<exists>msg. truthy_elems (get msg ''tool_calls'') = tcs
           \<and> get msg ''content'' = content_of (call_llm d st)
           \<and> iteration d st = handle_reply d (st\<lparr>llm_calls := Suc (llm_calls st)\<rparr>) msg"
proof -
  from assms have t: "truthy (call_llm d st)"
    by (auto simp: tool_calls_of_def split: if_splits)
  from assms t obtain msg where m: "getAssistantMessage (call_llm d st) = Inr msg"
    and c: "truthy_elems (get msg ''tool_calls'') = tcs"
    by (cases "getAssistantMessage (call_llm d st)") (auto simp: tool_calls_of_def)
  have "get msg ''content'' = content_of (call_llm d st)" by (simp add: content_of_def m)
  moreover have "iteration d st = handle_reply d (st\<lparr>llm_calls := Suc (llm_calls st)\<rparr>) msg"
    by (simp add: iteration_def Let_def t m)
  ultimately show ?thesis using c by blast
qed

lemma iteration_no_calls:
  assumes "tool_calls_of (call_llm d st) = Some []"
  shows "fst (iteration d st) \<noteq> Continue"
proof -
  let ?st1 = "st\<lparr>llm_calls := Suc (llm_calls st)\<rparr>"
  from iteration_of_reply [OF assms] obtain msg where
    c: "truthy_elems (get msg ''tool_calls'') = []"
    and it: "iteration d st = handle_reply d ?st1 msg" by blast
  show ?thesis
    by (cases "render_reply msg (?st1\<lparr>messages := messages ?st1 @ [assistant_message msg []]\<rparr>)")
       (simp_all add: it handle_reply_def Let_def run_tools_def c)
qed

lemma tool_step_ok:
  assumes "\<not> nullish (get tc ''function'')"
  shows "fst (tool_step d st tc) = None
     \<and> length (messages (snd (tool_step d st tc))) = Suc (length (messages st))"
  using assms by (simp add: tool_step_def get_prop_def Let_def)

lemma iteration_one_call:
  assumes "tool_calls_of (call_llm d st) = Some [tc]"
    and "\<not> isl (to_string (content_of (call_llm d st)))"
    and "\<not> nullish (get tc ''function'')"
  shows "fst (iteration d st) = Continue
    \<and> length (messages (snd (iteration d st))) = length (messages st) + 2"
proof -
  let ?st1 = "st\<lparr>llm_calls := Suc (llm_calls st)\<rparr>"
  from iteration_of_reply [OF assms(1)] obtain msg where
    c: "truthy_elems (get msg ''tool_calls'') = [tc]"
    and ct: "get msg ''content'' = content_of (call_llm d st)"
    and it: "iteration d st = handle_reply d ?st1 msg" by blast
  obtain s where s: "to_string (get msg ''content'') = Inr s"
    using assms(2) ct by (cases "to_string (get msg ''content'')") simp_all
  let ?st2 = "?st1\<lparr>messages := messages ?st1 @ [assistant_message msg [tc]]\<rparr>"
  obtain st3 where r: "render_reply msg ?st2 = Inr st3" and m3: "messages st3 = messages ?st2"
    by (cases "truthy (get msg ''content'')") (simp_all add: render_reply_def addMessage_def s)
  obtain x st4 where ts: "tool_step d st3 tc = (x, st4)" by (cases "tool_step d st3 tc")
  from tool_step_ok [OF assms(3), of d st3]
  have x: "x = None" and m4: "length (messages st4) = Suc (length (messages st3))"
    by (simp_all add: ts)
  have "handle_reply d ?st1 msg = (Continue, st4)"
    using r by (simp add: handle_reply_def Let_def run_tools_def ts x c)
  then show ?thesis by (simp add: it m4 m3)
qed

lemma agent_while_no_calls:
  assumes "\<forall>s. tool_calls_of (call_llm d s) = Some []" and "turns < 8"
  shows "llm_calls (snd (agent_while d turns st)) = Suc (llm_calls st)"
proof -
  have c: "tool_calls_of (call_llm d st) = Some []" using assms(1) by blast
  obtain f st' where it: "iteration d st = (f, st')" by (cases "iteration d st")
  have nc: "f \<noteq> Continue" using iteration_no_calls [OF c] by (simp add: it)
  have "llm_calls st' = Suc (llm_calls st)" using iteration_frame [of d st] by (simp add: it)
  then show ?thesis using nc assms(2)
    by (cases f) (simp_all add: agent_while.simps [of d turns st] it)
qed

lemma agent_while_one_call:
  "\<forall>s. \<exists>tc. tool_calls_of (call_llm d s) = Some [tc]
       \<and> \<not> isl (to_string (content_of (call_llm d s)))
       \<and> \<not> nullish (get tc ''function'') \<Longrightarrow>
   fst (agent_while d turns st) = None
     \<and> llm_calls (snd (agent_while d turns st)) = llm_calls st + (8 - turns)
     \<and> length (messages (snd (agent_while d turns st))) = length (messages st) + 2 * (8 - turns)"
proof (induction d turns st rule: agent_while.induct)
  case (1 d turns st)
  note stub = "1.prems"
  show ?case
  proof (cases "turns < 8")
    case False
    then show ?thesis by (simp add: agent_while.simps [of d turns st])
  next
    case True
    obtain tc where c: "tool_calls_of (call_llm d st) = Some [tc]"
      and ts: "\<not> isl (to_string (content_of (call_llm d st)))"
      and tc: "\<not> nullish (get tc ''function'')"
      using stub by blast
    obtain f st' where it: "iteration d st = (f, st')" by (cases "iteration d st")
    from iteration_one_call [OF c ts tc]
    have f: "f = Continue" and m: "length (messages st') = length (messages st) + 2"
      by (simp_all add: it)
    have l: "llm_calls st' = Suc (llm_calls st)" using iteration_frame [of d st] by (simp add: it)
    have eq: "agent_while d turns st = agent_while d (Suc turns) st'"
      using True by (simp add: agent_while.simps [of d turns st] it f)
    have "fst (agent_while d (Suc turns) st') = None"
      and "llm_calls (snd (agent_while d (Suc turns) st')) = llm_calls st' + (8 - Suc turns)"
      and "length (messages (snd (agent_while d (Suc turns) st')))
             = length (messages st') + 2 * (8 - Suc turns)"
      using "1.IH" [OF True it [symmetric] f stub] by simp_all
    then show ?thesis unfolding eq using l m True by auto
  qed
qed

lemma tool_step_while_running:
  assumes "running st"
  shows "tool_step (while_running d) st tc = tool_step d st tc"
proof -
  have jp: "json_parse (while_running d) = json_parse d"
    by (simp add: while_running_def)
  have ex: "exec_tool (while_running d) st = exec_tool d st"
    using assms by (simp add: while_running_def)
  show ?thesis unfolding tool_step_def parse_args_def jp ex ..
qed

lemma tool_steps_while_running:
  "running st \<Longrightarrow> tool_steps (while_running d) st tcs = tool_steps d st tcs"
proof (induction tcs arbitrary: st)
  case Nil
  then show ?case by simp
next
  case (Cons tc tcs)
  obtain r st' where ts: "tool_step d st tc = (r, st')" by (cases "tool_step d st tc")
  have "running st'" using tool_step_frame [of d st tc] Cons.prems by (simp add: ts)
  then show ?case using Cons.IH [of st'] Cons.prems
    by (cases r) (simp_all add: tool_step_while_running ts)
qed

lemma iteration_while_running:
  assumes "running st"
  shows "iteration (while_running d) st = iteration d st"
proof -
  have c: "call_llm (while_running d) st = call_llm d st"
    using assms by (simp add: while_running_def)
  have h: "handle_reply (while_running d) s msg = handle_reply d s msg" if "running s" for s msg
  proof -
    let ?tcs = "truthy_elems (get msg ''tool_calls'')"
    let ?s2 = "s\<lparr>messages := messages s @ [assistant_message msg ?tcs]\<rparr>"
    show ?thesis
    proof (cases "render_reply msg ?s2")
      case (Inl e)
      then show ?thesis by (simp add: handle_reply_def Let_def)
    next
      case (Inr s3)
      have "running s3" using render_reply_frame [OF Inr] that by simp
      then have "run_tools (while_running d) s3 ?tcs = run_tools d s3 ?tcs"
        by (simp add: run_tools_def tool_steps_while_running)
      then show ?thesis using Inr by (simp add: handle_reply_def Let_def)
    qed
  qed
  show ?thesis
    using assms by (simp add: iteration_def Let_def c h split: sum.splits)
qed

lemma agent_while_while_running:
  "running st \<Longrightarrow> agent_while (while_running d) turns st = agent_while d turns st"
proof (induction d turns st rule: agent_while.induct)
  case (1 d turns st)
  note run = "1.prems"
  show ?case
  proof (cases "turns < 8")
    case False
    then show ?thesis
      by (simp add: agent_while.simps [of d turns st] agent_while.simps [of "while_running d" turns st])
  next
    case True
    obtain f st' where it: "iteration d st = (f, st')" by (cases "iteration d st")
    have it': "iteration (while_running d) st = (f, st')"
      using iteration_while_running [OF run] it by simp
    have r': "running st'" using iteration_frame [of d st] run by (simp add: it)
    show ?thesis
    proof (cases f)
      case Continue
      from "1.IH" [OF True it [symmetric] Continue r'] True
      show ?thesis
        by (simp add: agent_while.simps [of d turns st]
              agent_while.simps [of "while_running d" turns st] it it' Continue)
    next
      case Break
      then show ?thesis using True
        by (simp add: agent_while.simps [of d turns st]
              agent_while.simps [of "while_running d" turns st] it it')
    next
      case (Throw e)
      then show ?thesis using True
        by (simp add: agent_while.simps [of d turns st]
              agent_while.simps [of "while_running d" turns st] it it')
    qed
  qed
qed

lemma agentLoop_while_running: "agentLoop (while_running d) st = agentLoop d st"
  by (simp add: agentLoop_def agent_while_while_running setBusy_def)

lemma agentLoop_not_running: "\<not> running (agentLoop d st) \<or> agentLoop d st = st"
proof (cases "running st")
  case True
  then show ?thesis by (simp add: agentLoop_def)
next
  case False
  then show ?thesis
    by (cases "agent_while d 0 (setBusy True st)"; cases "fst (agent_while d 0 (setBusy True st))")
       (simp_all add: agentLoop_def, simp_all add: setBusy_def)
qed

text \<open>
  C1. Whatever the provider, the parser and the tools do, one invocation of the loop calls
  the provider at most 8 times. From an idle session, a provider whose every reply holds
  no tool call is called exactly once; a provider whose every reply holds one tool call
  (an object with a \<^verbatim>\<open>function\<close>) beside a content that converts to a string
  (\<^verbatim>\<open>null\<close> or text, say) is called exactly 8 times, after which the loop ends with no
  alert, the \<open>running\<close> flag cleared and 16 messages appended.
\<close>

theorem agent_loop_iterations:
  "llm_calls (agentLoop d st) \<le> llm_calls st + 8
   \<and> (\<not> running st \<and> (\<forall>s. tool_calls_of (call_llm d s) = Some [])
        \<longrightarrow> llm_calls (agentLoop d st) = llm_calls st + 1)
   \<and> (\<not> running st
        \<and> (\<forall>s. \<exists>tc. tool_calls_of (call_llm d s) = Some [tc]
                  \<and> \<not> isl (to_string (content_of (call_llm d s)))
                  \<and> \<not> nullish (get tc ''function''))
        \<longrightarrow> llm_calls (agentLoop d st) = llm_calls st + 8
            \<and> alerts (agentLoop d st) = alerts st
            \<and> \<not> running (agentLoop d st)
            \<and> length (messages (agentLoop d st)) = length (messages st) + 16)"
proof -
  have p1: "llm_calls (agentLoop d st) \<le> llm_calls st + 8" by (rule agentLoop_at_most_8)
  have p2: "llm_calls (agentLoop d st) = llm_calls st + 1"
    if a: "\<not> running st \<and> (\<forall>s. tool_calls_of (call_llm d s) = Some [])"
  proof -
  let ?st = "setBusy True st"
  obtain r st' where w: "agent_while d 0 ?st = (r, st')" by (cases "agent_while d 0 ?st")
  have "llm_calls (snd (agent_while d 0 ?st)) = Suc (llm_calls ?st)"
    using a by (intro agent_while_no_calls) simp_all
  then have "llm_calls st' = Suc (llm_calls st)" unfolding w by (simp add: setBusy_def)
  then show ?thesis using a
    by (cases r) (simp_all add: agentLoop_def w, simp_all add: setBusy_def addAlert_def)
  qed
  have p3: "llm_calls (agentLoop d st) = llm_calls st + 8
      \<and> alerts (agentLoop d st) = alerts st
      \<and> \<not> running (agentLoop d st)
      \<and> length (messages (agentLoop d st)) = length (messages st) + 16"
    if a: "\<not> running st
     \<and> (\<forall>s. \<exists>tc. tool_calls_of (call_llm d s) = Some [tc]
                  \<and> \<not> isl (to_string (content_of (call_llm d s)))
                  \<and> \<not> nullish (get tc ''function''))"
  proof -
  let ?st = "setBusy True st"
  obtain r st' where w: "agent_while d 0 ?st = (r, st')" by (cases "agent_while d 0 ?st")
  have "fst (agent_while d 0 ?st) = None
     \<and> llm_calls (snd (agent_while d 0 ?st)) = llm_calls ?st + (8 - 0)
     \<and> length (messages (snd (agent_while d 0 ?st))) = length (messages ?st) + 2 * (8 - 0)"
    using a by (intro agent_while_one_call) simp
  then have r: "r = None" and l: "llm_calls st' = llm_calls st + 8"
    and m: "length (messages st') = length (messages st) + 16"
    unfolding w by (simp_all add: setBusy_def)
  have "alerts (snd (agent_while d 0 ?st)) = alerts ?st"
    using agent_while_frame [of d 0 ?st] by simp
  then have al: "alerts st' = alerts st" unfolding w by (simp add: setBusy_def)
  have res: "agentLoop d st = setBusy False st'" using a by (simp add: agentLoop_def w r)
  show ?thesis
    unfolding res using l m al by (simp add: setBusy_def)
  qed
  from p1 p2 p3 show ?thesis by blast
qed

theorem agent_loop_iterations_witness:
  "\<not> running idle
   \<and> llm_calls (agentLoop (stub_deps (reply (JStr ''hello'') [])) idle) = 1
   \<and> llm_calls (agentLoop (stub_deps (reply JNull [example_call])) idle) = 8
   \<and> alerts (agentLoop (stub_deps (reply JNull [example_call])) idle) = []
   \<and> length (messages (agentLoop (stub_deps (reply JNull [example_call])) idle)) = 16"
proof -
  have i: "\<not> running idle" "llm_calls idle = 0" "alerts idle = []" "messages idle = []"
    by (simp_all add: idle_def)
  have z: "\<forall>s. tool_calls_of (call_llm (stub_deps (reply (JStr ''hello'') [])) s) = Some []"
    by (simp add: stub_deps_def tool_calls_of_reply)
  have "tool_calls_of (call_llm (stub_deps (reply JNull [example_call])) s) = Some [example_call]
          \<and> \<not> isl (to_string (content_of (call_llm (stub_deps (reply JNull [example_call])) s)))
          \<and> \<not> nullish (get example_call ''function'')" for s
    by (simp add: stub_deps_def tool_calls_of_reply content_of_reply) (simp add: example_call_def)
  then have o: "\<forall>s. \<exists>tc.
        tool_calls_of (call_llm (stub_deps (reply JNull [example_call])) s) = Some [tc]
        \<and> \<not> isl (to_string (content_of (call_llm (stub_deps (reply JNull [example_call])) s)))
        \<and> \<not> nullish (get tc ''function'')"
    by blast
  from agent_loop_iterations [of "stub_deps (reply (JStr ''hello'') [])" idle] i z
  have one: "llm_calls (agentLoop (stub_deps (reply (JStr ''hello'') [])) idle) = 1" by simp
  from agent_loop_iterations [of "stub_deps (reply JNull [example_call])" idle] i o
  have "llm_calls (agentLoop (stub_deps (reply JNull [example_call])) idle) = 8
      \<and> alerts (agentLoop (stub_deps (reply JNull [example_call])) idle) = []
      \<and> length (messages (agentLoop (stub_deps (reply JNull [example_call])) idle)) = 16"
    by simp
  with i(1) one show ?thesis by simp
qed

text \<open>
  C7. For a tool call whose \<^verbatim>\<open>function.arguments\<close> is a string: the arguments passed
  to the tool are \<^verbatim>\<open>{}\<close> when \<^verbatim>\<open>JSON.parse\<close> throws and the parsed value otherwise
  (so a well-formed JSON object parses to that object); in both cases nothing is thrown,
  the tool is executed, its result is appended as a tool message and the loop goes on to
  the next tool call.
\<close>

theorem malformed_arguments_not_fatal:
  assumes "get (get tc ''function'') ''arguments'' = JStr s"
  shows "parse_args d tc = (case json_parse d s of Inl e \<Rightarrow> JObj [] | Inr v \<Rightarrow> v)
     \<and> tool_step d st tc =
         (None, st\<lparr>messages := messages st @
            [JObj [(''role'', JStr ''tool''),
                   (''tool_call_id'', or_else (get tc ''id'') JUndefined),
                   (''name'', get (get tc ''function'') ''name''),
                   (''content'', JSON_stringify
                      (case exec_tool d st (get (get tc ''function'') ''name'') (parse_args d tc) of
                         Inl e \<Rightarrow> JObj [(''error'', JStr (exn_to_string e))]
                       | Inr r \<Rightarrow> r))]]\<rparr>)
     \<and> tool_steps d st (tc # tcs) = tool_steps d (snd (tool_step d st tc)) tcs"
proof -
  have nn: "\<not> nullish (get tc ''function'')" using assms by (cases "get tc ''function''") simp_all
  have p: "parse_args d tc = (case json_parse d s of Inl e \<Rightarrow> JObj [] | Inr v \<Rightarrow> v)"
    using nn assms by (simp add: parse_args_def get_prop_def)
  have t: "tool_step d st tc =
         (None, st\<lparr>messages := messages st @
            [JObj [(''role'', JStr ''tool''),
                   (''tool_call_id'', or_else (get tc ''id'') JUndefined),
                   (''name'', get (get tc ''function'') ''name''),
                   (''content'', JSON_stringify
                      (case exec_tool d st (get (get tc ''function'') ''name'') (parse_args d tc) of
                         Inl e \<Rightarrow> JObj [(''error'', JStr (exn_to_string e))]
                       | Inr r \<Rightarrow> r))]]\<rparr>)"
    using nn by (simp add: tool_step_def get_prop_def Let_def)
  have "tool_steps d st (tc # tcs) = tool_steps d (snd (tool_step d st tc)) tcs"
    by (simp add: t)
  with p t show ?thesis by simp
qed

theorem malformed_arguments_not_fatal_witness:
  "get (get example_call ''function'') ''arguments'' = JStr ''{oops''
   \<and> json_parse (stub_deps JNull) ''{oops'' = Inl (Exn ''SyntaxError'' ''Unexpected token'')
   \<and> parse_args (stub_deps JNull) example_call = JObj []
   \<and> tool_step (stub_deps JNull) idle example_call =
       (None, idle\<lparr>messages :=
          [JObj [(''role'', JStr ''tool''), (''tool_call_id'', JStr ''c1''),
                 (''name'', JStr ''web_search''),
                 (''content'', JStr (stringify (JObj [(''name'', JStr ''web_search''),
                                                      (''args'', JObj [])])))]]\<rparr>)"
proof -
  have a: "get (get example_call ''function'') ''arguments'' = JStr ''{oops''"
    by (simp add: example_call_def)
  have j: "json_parse (stub_deps JNull) ''{oops'' = Inl (Exn ''SyntaxError'' ''Unexpected token'')"
    by (simp add: stub_deps_def)
  from malformed_arguments_not_fatal [OF a, of "stub_deps JNull" idle "[]"]
  have p: "parse_args (stub_deps JNull) example_call = JObj []"
    and t: "tool_step (stub_deps JNull) idle example_call =
         (None, idle\<lparr>messages := messages idle @
            [JObj [(''role'', JStr ''tool''),
                   (''tool_call_id'', or_else (get example_call ''id'') JUndefined),
                   (''name'', get (get example_call ''function'') ''name''),
                   (''content'', JSON_stringify
                      (case exec_tool (stub_deps JNull) idle (get (get example_call ''function'') ''name'')
                              (parse_args (stub_deps JNull) example_call) of
                         Inl e \<Rightarrow> JObj [(''error'', JStr (exn_to_string e))]
                       | Inr r \<Rightarrow> r))]]\<rparr>)"
    by (simp_all add: j)
  have t': "tool_step (stub_deps JNull) idle example_call =
       (None, idle\<lparr>messages :=
          [JObj [(''role'', JStr ''tool''), (''tool_call_id'', JStr ''c1''),
                 (''name'', JStr ''web_search''),
                 (''content'', JStr (stringify (JObj [(''name'', JStr ''web_search''),
                                                      (''args'', JObj [])])))]]\<rparr>)"
    unfolding t p by (simp add: example_call_def stub_deps_def idle_def or_else_def JSON_stringify_def)
  from a j p t' show ?thesis by simp
qed

text \<open>
  C8. Invoked while the \<open>running\<close> flag is set, \<^verbatim>\<open>agentLoop\<close> and \<^verbatim>\<open>onSend\<close>
  return the session exactly as it was. The flag is set in every state in which the loop
  consults the provider or a tool, and it is cleared when the loop ends.
\<close>

theorem reentry_is_noop:
  "(running st \<longrightarrow> agentLoop d st = st \<and> onSend d input st = st)
   \<and> agentLoop (while_running d) st = agentLoop d st
   \<and> (\<not> running st \<longrightarrow> \<not> running (agentLoop d st))"
proof -
  have "agentLoop d st = st \<and> onSend d input st = st" if "running st"
    using that by (simp add: agentLoop_def onSend_def)
  moreover have "agentLoop (while_running d) st = agentLoop d st"
    by (rule agentLoop_while_running)
  moreover have "\<not> running (agentLoop d st)" if "\<not> running st"
    using agentLoop_not_running [of d st] that by auto
  ultimately show ?thesis by blast
qed

theorem reentry_is_noop_witness:
  "running busy
   \<and> agentLoop (stub_deps (reply (JStr []) [example_call])) busy = busy
   \<and> onSend (stub_deps (reply (JStr []) [example_call])) ''again'' busy = busy
   \<and> \<not> running idle
   \<and> \<not> running (agentLoop (stub_deps (reply (JStr []) [example_call])) idle)"
proof -
  have b: "running busy" by (simp add: busy_def)
  have i: "\<not> running idle" by (simp add: idle_def)
  from reentry_is_noop [of busy "stub_deps (reply (JStr []) [example_call])" "''again''"] b
  have 1: "agentLoop (stub_deps (reply (JStr []) [example_call])) busy = busy
     \<and> onSend (stub_deps (reply (JStr []) [example_call])) ''again'' busy = busy"
    by simp
  from reentry_is_noop [of idle "stub_deps (reply (JStr []) [example_call])" "[]"] i
  have 2: "\<not> running (agentLoop (stub_deps (reply (JStr []) [example_call])) idle)"
    by simp
  from b i 1 2 show ?thesis by simp
qed

section \<open>Properties of the adapters\<close>

lemma translated_role_obj: "translated_role m \<Longrightarrow> truthy m \<and> truthy (get m ''role'')"
  by (cases m) (auto simp: translated_role_def)

lemma gemini_entry_skip: "\<not> translated_role m \<Longrightarrow> gemini_entry parse m = Inr []"
  by (simp add: gemini_entry_def translated_role_def Let_def)

lemma anthropic_entry_skip: "\<not> translated_role m \<Longrightarrow> anthropic_entry parse r m = Inr ([], False)"
  by (simp add: anthropic_entry_def translated_role_def Let_def)

lemma gemini_entry_one:
  assumes "translated_role m" and "gemini_entry parse m = Inr xs"
  shows "\<exists>e. xs = [e] \<and> get e ''role'' \<in> {JStr ''user'', JStr ''model'', JStr ''tool''}"
proof -
  from translated_role_obj [OF assms(1)] have t: "truthy m" "truthy (get m ''role'')" by simp_all
  from assms(1) consider (ua) "get m ''role'' = JStr ''user'' \<or> get m ''role'' = JStr ''assistant''"
    | (tool) "get m ''role'' = JStr ''tool''"
    by (auto simp: translated_role_def)
  then show ?thesis
  proof cases
    case ua
    with assms(2) t show ?thesis
      by (auto simp: gemini_entry_def Let_def dest!: and_then_Inr)
  next
    case tool
    with assms(2) t show ?thesis
      by (auto simp: gemini_entry_def Let_def dest!: and_then_Inr)
  qed
qed

lemma anthropic_entry_one:
  assumes "translated_role m" and "anthropic_entry parse r m = Inr (xs, drew)"
  shows "\<exists>e. xs = [e] \<and> get e ''role'' \<in> {JStr ''user'', JStr ''assistant''}"
proof -
  from translated_role_obj [OF assms(1)] have t: "truthy m" "truthy (get m ''role'')" by simp_all
  from assms(1) consider (ua) "get m ''role'' = JStr ''user'' \<or> get m ''role'' = JStr ''assistant''"
    | (tool) "get m ''role'' = JStr ''tool''"
    by (auto simp: translated_role_def)
  then show ?thesis
  proof cases
    case ua
    with assms(2) t show ?thesis
      by (auto simp: anthropic_entry_def Let_def dest!: and_then_Inr)
  next
    case tool
    with assms(2) t show ?thesis
      by (auto simp: anthropic_entry_def Let_def dest!: and_then_Inr)
  qed
qed

lemma toGeminiContents_filter:
  "toGeminiContents parse ms = toGeminiContents parse (filter translated_role ms)"
  by (induction ms) (simp_all add: gemini_entry_skip and_then_unit)

lemma toAnthropicMessages_filter:
  "toAnthropicMessages parse rand k ms = toAnthropicMessages parse rand k (filter translated_role ms)"
  by (induction ms arbitrary: k) (simp_all add: anthropic_entry_skip and_then_unit)

lemma toGeminiContents_entries:
  "toGeminiContents parse ms = Inr out \<Longrightarrow>
     length out = length (filter translated_role ms)
     \<and> (\<forall>e \<in> set out. get e ''role'' \<in> {JStr ''user'', JStr ''model'', JStr ''tool''})"
proof (induction ms arbitrary: out)
  case Nil
  then show ?case by simp
next
  case (Cons m ms)
  from Cons.prems obtain x xs where x: "gemini_entry parse m = Inr x"
    and xs: "toGeminiContents parse ms = Inr xs" and out: "out = x @ xs"
    by (auto dest!: and_then_Inr)
  note ih = Cons.IH [OF xs]
  show ?case
  proof (cases "translated_role m")
    case True
    from gemini_entry_one [OF True x] ih show ?thesis by (auto simp: out True)
  next
    case False
    with x ih show ?thesis by (simp add: out gemini_entry_skip)
  qed
qed

lemma toAnthropicMessages_entries:
  "toAnthropicMessages parse rand k ms = Inr out \<Longrightarrow>
     length out = length (filter translated_role ms)
     \<and> (\<forall>e \<in> set out. get e ''role'' \<in> {JStr ''user'', JStr ''assistant''})"
proof (induction ms arbitrary: out k)
  case Nil
  then show ?case by simp
next
  case (Cons m ms)
  from Cons.prems obtain x drew xs where x: "anthropic_entry parse (rand k) m = Inr (x, drew)"
    and xs: "toAnthropicMessages parse rand (if drew then Suc k else k) ms = Inr xs"
    and out: "out = x @ xs"
    by (auto dest!: and_then_Inr)
  note ih = Cons.IH [OF xs]
  show ?case
  proof (cases "translated_role m")
    case True
    from anthropic_entry_one [OF True x] ih show ?thesis by (auto simp: out True)
  next
    case False
    with x ih show ?thesis by (simp add: out anthropic_entry_skip)
  qed
qed


text \<open>
  C10. Both translations give the same result on a transcript and on the transcript
  without the messages whose role is none of user, assistant and tool: such messages,
  system messages among them, add nothing. When a translation returns, it returns one
  entry per remaining message, with role user, model or tool for Gemini and user or
  assistant for Anthropic.
\<close>

theorem adapters_drop_system_messages:
  "toGeminiContents parse ms = toGeminiContents parse (filter translated_role ms)
   \<and> toAnthropicMessages parse rand k ms
       = toAnthropicMessages parse rand k (filter translated_role ms)
   \<and> (\<forall>out. toGeminiContents parse ms = Inr out \<longrightarrow>
         length out = length (filter translated_role ms)
         \<and> (\<forall>e \<in> set out. get e ''role'' \<in> {JStr ''user'', JStr ''model'', JStr ''tool''}))
   \<and> (\<forall>out. toAnthropicMessages parse rand k ms = Inr out \<longrightarrow>
         length out = length (filter translated_role ms)
         \<and> (\<forall>e \<in> set out. get e ''role'' \<in> {JStr ''user'', JStr ''assistant''}))
   \<and> (get m ''role'' = JStr ''system'' \<longrightarrow>
         \<not> translated_role m \<and> gemini_entry parse m = Inr []
         \<and> anthropic_entry parse r m = Inr ([], False))"
proof -
  have "\<not> translated_role m \<and> gemini_entry parse m = Inr []
        \<and> anthropic_entry parse r m = Inr ([], False)"
    if "get m ''role'' = JStr ''system''"
  proof -
    have "\<not> translated_role m" using that by (simp add: translated_role_def)
    then show ?thesis by (simp add: gemini_entry_skip anthropic_entry_skip)
  qed
  then show ?thesis
    using toGeminiContents_filter [of parse ms] toAnthropicMessages_filter [of parse rand k ms]
      toGeminiContents_entries [of parse ms] toAnthropicMessages_entries [of parse rand k ms]
    by blast
qed

theorem adapters_drop_system_messages_witness:
  "filter translated_role adapter_transcript = adapter_kept
   \<and> get (adapter_transcript ! 0) ''role'' = JStr ''system''
   \<and> toGeminiContents parse_stub adapter_transcript =
       Inr [JObj [(''role'', JStr ''user''), (''parts'', JArr [JObj [(''text'', JStr ''hi'')]])],
            JObj [(''role'', JStr ''model''), (''parts'', JArr [JObj [(''text'', JStr [])]])],
            JObj [(''role'', JStr ''tool''),
                  (''parts'', JArr [JObj [(''functionResponse'',
                     JObj [(''name'', JStr ''web_search''), (''response'', JObj [])])]])]]
   \<and> toAnthropicMessages parse_stub (\<lambda>k. ''abc'') 0 adapter_transcript =
       Inr [JObj [(''role'', JStr ''user''),
                  (''content'', JArr [JObj [(''type'', JStr ''text''), (''text'', JStr ''hi'')]])],
            JObj [(''role'', JStr ''assistant''),
                  (''content'', JArr [JObj [(''type'', JStr ''text''), (''text'', JStr [])]])],
            JObj [(''role'', JStr ''user''),
                  (''content'', JArr [JObj [(''type'', JStr ''tool_result''),
                                            (''tool_use_id'', JStr ''tool_abc''),
                                            (''content'', JStr ''{}''),
                                            (''is_error'', JBool False)]])]]"
proof -
  have f: "filter translated_role adapter_transcript = adapter_kept"
    by (simp add: adapter_transcript_def adapter_kept_def translated_role_def)
  have s: "get (adapter_transcript ! 0) ''role'' = JStr ''system''"
    by (simp add: adapter_transcript_def)
  have g: "toGeminiContents parse_stub adapter_kept =
       Inr [JObj [(''role'', JStr ''user''), (''parts'', JArr [JObj [(''text'', JStr ''hi'')]])],
            JObj [(''role'', JStr ''model''), (''parts'', JArr [JObj [(''text'', JStr [])]])],
            JObj [(''role'', JStr ''tool''),
                  (''parts'', JArr [JObj [(''functionResponse'',
                     JObj [(''name'', JStr ''web_search''), (''response'', JObj [])])]])]]"
    unfolding adapter_kept_def by code_simp
  have a: "toAnthropicMessages parse_stub (\<lambda>k. ''abc'') 0 adapter_kept =
       Inr [JObj [(''role'', JStr ''user''),
                  (''content'', JArr [JObj [(''type'', JStr ''text''), (''text'', JStr ''hi'')]])],
            JObj [(''role'', JStr ''assistant''),
                  (''content'', JArr [JObj [(''type'', JStr ''text''), (''text'', JStr [])]])],
            JObj [(''role'', JStr ''user''),
                  (''content'', JArr [JObj [(''type'', JStr ''tool_result''),
                                            (''tool_use_id'', JStr ''tool_abc''),
                                            (''content'', JStr ''{}''),
                                            (''is_error'', JBool False)]])]]"
    unfolding adapter_kept_def by code_simp
  from adapters_drop_system_messages [of parse_stub adapter_transcript "\<lambda>k. ''abc''" 0]
  have "toGeminiContents parse_stub adapter_transcript = toGeminiContents parse_stub adapter_kept"
    and "toAnthropicMessages parse_stub (\<lambda>k. ''abc'') 0 adapter_transcript
       = toAnthropicMessages parse_stub (\<lambda>k. ''abc'') 0 adapter_kept"
    unfolding f by blast+
  with f s g a show ?thesis by simp
qed

section \<open>\<^verbatim>\<open>JSON.stringify\<close> writes JSON texts\<close>













section \<open>Properties of the tools\<close>

lemma cse_items_map:
  "\<forall>i \<in> set its. \<not> nullish i \<Longrightarrow>
     cse_items its = Inr (map (\<lambda>i. JObj [(''title'', get i ''title''), (''link'', get i ''link''),
                                            (''snippet'', get i ''snippet'')]) its)"
  by (induction its) (simp_all add: cse_item_def)

lemma google_env_run:
  "toolWebSearch google_env search_x_3 =
     Inr (JObj [(''query'', JStr ''x''), (''provider'', JStr ''google_cse''),
                (''items'', JArr (map (\<lambda>i. JObj [(''title'', get i ''title''),
                                                    (''link'', get i ''link''),
                                                    (''snippet'', get i ''snippet'')])
                                       (map result_item [1, 2, 3, 4, 5])))])"
  by code_simp

text \<open>
  C5, as the code has it. With both keys configured and an engine that answers with an
  array of items, \<^verbatim>\<open>web_search\<close> returns one \<^verbatim>\<open>{title, link, snippet}\<close> item per
  item of the engine, in the engine's order. The requested count goes into the request
  URL, which ends with \<^verbatim>\<open>&num=\<close> and the count; the result is not cut to it.
\<close>

theorem google_search_returns_engine_items:
  assumes "googleKey E \<noteq> []" and "googleCx E \<noteq> []" and "\<not> nullish args"
    and "google_url E (get args ''q'') (with_default (get args ''num'') (JNum 3)) = Inr u"
    and "fetch E (http_get u) = Inr res" and "ok res" and "json_body res = Inr json"
    and "get json ''items'' = JArr its" and "\<forall>i \<in> set its. \<not> nullish i"
  shows "toolWebSearch E args =
     Inr (JObj [(''query'', get args ''q''), (''provider'', JStr ''google_cse''),
                (''items'', JArr (map (\<lambda>i. JObj [(''title'', get i ''title''),
                                                    (''link'', get i ''link''),
                                                    (''snippet'', get i ''snippet'')]) its))])
     \<and> (\<exists>p n. to_string (with_default (get args ''num'') (JNum 3)) = Inr n
                \<and> u = p @ ''&num='' @ n)"
proof -
  have nn: "\<not> nullish json" using assms(8) by (cases json) simp_all
  have "google_search E (get args ''q'') (with_default (get args ''num'') (JNum 3)) =
     Inr (JObj [(''query'', get args ''q''), (''provider'', JStr ''google_cse''),
                (''items'', JArr (map (\<lambda>i. JObj [(''title'', get i ''title''),
                                                    (''link'', get i ''link''),
                                                    (''snippet'', get i ''snippet'')]) its))])"
    using assms(4-8) nn cse_items_map [OF assms(9)]
    by (simp add: google_search_def get_prop_def or_else_def)
  then have r: "toolWebSearch E args =
     Inr (JObj [(''query'', get args ''q''), (''provider'', JStr ''google_cse''),
                (''items'', JArr (map (\<lambda>i. JObj [(''title'', get i ''title''),
                                                    (''link'', get i ''link''),
                                                    (''snippet'', get i ''snippet'')]) its))])"
    using assms(1-3) by (simp add: toolWebSearch_def destructure_def Let_def)
  from assms(4) obtain k c q' n where
    n: "to_string (with_default (get args ''num'') (JNum 3)) = Inr n"
    and u: "u = ''https://www.googleapis.com/customsearch/v1?key='' @ k @ ''&cx='' @ c
              @ ''&q='' @ q' @ ''&num='' @ n"
    unfolding google_url_def by (auto dest!: and_then_Inr)
  have "u = (''https://www.googleapis.com/customsearch/v1?key='' @ k @ ''&cx='' @ c
              @ ''&q='' @ q') @ ''&num='' @ n"
    unfolding u by simp
  with n have "\<exists>p n. to_string (with_default (get args ''num'') (JNum 3)) = Inr n
                \<and> u = p @ ''&num='' @ n"
    by blast
  with r show ?thesis by simp
qed

theorem google_search_returns_engine_items_witness:
  "googleKey google_env \<noteq> [] \<and> googleCx google_env \<noteq> [] \<and> \<not> nullish search_x_3
   \<and> google_url google_env (get search_x_3 ''q'') (with_default (get search_x_3 ''num'') (JNum 3))
       = Inr ''https://www.googleapis.com/customsearch/v1?key=key&cx=cx&q=x&num=3''
   \<and> toolWebSearch google_env search_x_3 =
       Inr (JObj [(''query'', JStr ''x''), (''provider'', JStr ''google_cse''),
                  (''items'', JArr (map (\<lambda>i. JObj [(''title'', get i ''title''),
                                                      (''link'', get i ''link''),
                                                      (''snippet'', get i ''snippet'')])
                                         (map result_item [1, 2, 3, 4, 5])))])"
proof -
  let ?res = "json_response (JObj [(''items'', JArr (map result_item [1, 2, 3, 4, 5]))])"
  have k: "googleKey google_env \<noteq> []" "googleCx google_env \<noteq> []"
    by (simp_all add: google_env_def base_env_def)
  have a: "\<not> nullish search_x_3" by (simp add: search_x_3_def)
  have u: "google_url google_env (get search_x_3 ''q'') (with_default (get search_x_3 ''num'') (JNum 3))
       = Inr ''https://www.googleapis.com/customsearch/v1?key=key&cx=cx&q=x&num=3''"
    by code_simp
  have f: "fetch google_env (http_get ''https://www.googleapis.com/customsearch/v1?key=key&cx=cx&q=x&num=3'')
       = Inr ?res"
    by (simp add: google_env_def base_env_def)
  have o: "ok ?res" and j: "json_body ?res = Inr (JObj [(''items'', JArr (map result_item [1, 2, 3, 4, 5]))])"
    by (simp_all add: json_response_def)
  have g: "get (JObj [(''items'', JArr (map result_item [1, 2, 3, 4, 5]))]) ''items''
       = JArr (map result_item [1, 2, 3, 4, 5])" by simp
  have nn: "\<forall>i \<in> set (map result_item [1, 2, 3, 4, 5]). \<not> nullish i"
    by (simp add: result_item_def)
  have q: "get search_x_3 ''q'' = JStr ''x''" by (simp add: search_x_3_def)
  from google_search_returns_engine_items [OF k a u f o j g nn] k a u
  show ?thesis by (simp add: q)
qed

text \<open>
  The claim C5 as stated fails: against the engine that returns five items, a search for
  \<open>x\<close> with \<open>num = 3\<close> yields five items, not at most three.
\<close>

theorem web_search_count_counterexample:
  "length (returned_items (toolWebSearch google_env search_x_3)) = 5
   \<and> \<not> length (returned_items (toolWebSearch google_env search_x_3)) \<le> 3"
  by (simp add: google_env_run returned_items_def)

lemma ddg_try_shape:
  assumes "ddg_try E q num = Inr v"
  shows "v = JNull \<or> (\<exists>items. items \<noteq> [] \<and>
           v = JObj [(''query'', q), (''provider'', JStr ''duckduckgo''), (''items'', JArr items)])"
proof -
  from assms obtain q' res where res: "fetch E (http_get (''https://api.duckduckgo.com/?q='' @ q'
                                    @ ''&format=json&no_html=1&skip_disambig=1'')) = Inr res"
    and rest: "(if ok res then
         and_then (json_body res) (\<lambda>data.
         and_then (get_prop data ''AbstractText'') (\<lambda>abstract.
           (let items0 =
                  (if truthy abstract then
                     [JObj [(''title'', or_else (get data ''Heading'') q),
                            (''link'', or_else (or_else (get data ''AbstractURL'')
                                                  (get (index0 (get data ''Results'')) ''FirstURL''))
                                         (JStr [])),
                            (''snippet'', abstract)]]
                   else [])
            in and_then
                 (case get data ''RelatedTopics'' of
                    JArr rts \<Rightarrow>
                      and_then (to_number E num) (\<lambda>n.
                        ddg_topics q (slice_to n (int (length items0)) rts))
                  | _ \<Rightarrow> Inr [])
                 (\<lambda>related.
                    (let items = items0 @ related in
                     Inr (if length items \<noteq> 0
                          then JObj [(''query'', q), (''provider'', JStr ''duckduckgo''),
                                     (''items'', JArr items)]
                          else JNull))))))
       else Inr JNull) = Inr v"
    unfolding ddg_try_def by (auto dest!: and_then_Inr)
  show ?thesis
  proof (cases "ok res")
    case False
    with rest show ?thesis by simp
  next
    case True
    with rest show ?thesis
      by (auto simp: Let_def dest!: and_then_Inr split: if_splits)
  qed
qed

lemma ddg_lookup_shape:
  "ddg_lookup E q num = JNull \<or> (\<exists>items. items \<noteq> [] \<and>
     ddg_lookup E q num
       = JObj [(''query'', q), (''provider'', JStr ''duckduckgo''), (''items'', JArr items)])"
  using ddg_try_shape [of E q num]
  by (cases "ddg_try E q num") (auto simp: ddg_lookup_def)

lemma wiki_try_shape:
  assumes "wiki_try E q = Inr v"
  shows "v = JNull \<or> (\<exists>item.
           v = JObj [(''query'', q), (''provider'', JStr ''wikipedia''), (''items'', JArr [item])])"
  using assms
  by (cases q) (auto simp: wiki_try_def dest!: and_then_Inr split: if_splits)

lemma wiki_lookup_shape:
  "wiki_lookup E q = JNull \<or> (\<exists>item.
     wiki_lookup E q = JObj [(''query'', q), (''provider'', JStr ''wikipedia''), (''items'', JArr [item])])"
  using wiki_try_shape [of E q]
  by (cases "wiki_try E q") (auto simp: wiki_lookup_def)

lemma fallback_env_lookups:
  "ddg_lookup fallback_env (JStr ''x'') (JNum 3)
     = JObj [(''query'', JStr ''x''), (''provider'', JStr ''duckduckgo''), (''items'', JArr ddg_items)]"
  "wiki_lookup fallback_env (JStr ''x'')
     = JObj [(''query'', JStr ''x''), (''provider'', JStr ''wikipedia''), (''items'', JArr [wiki_item])]"
  unfolding ddg_items_def wiki_item_def by code_simp+

text \<open>
  C6. Without a key pair and for an argument that is not nullish, with \<open>ddg\<close> and
  \<open>wiki\<close> the outcomes of the two lookups: when both returned data and the count is the
  number \<open>k\<close>, the result is tagged \<^verbatim>\<open>fallback(duckduckgo+wiki)\<close> and holds the first
  \<open>k - 1\<close> items of the first source followed by the first item of the second; when only
  one returned data, the result is that source's own object; when neither did, the result
  is the empty item list with the warning. Every one of these is a returned value, not an
  exception. A lookup yields \<^verbatim>\<open>null\<close> or an object with a non-empty item list
  (exactly one item for the second source).
\<close>

theorem fallback_search_merge:
  assumes "googleKey E = [] \<or> googleCx E = []" and "\<not> nullish args"
    and "q = get args ''q''" and "num = with_default (get args ''num'') (JNum 3)"
    and "ddg = ddg_lookup E q num" and "wiki = wiki_lookup E q"
  shows "(truthy ddg \<and> truthy wiki \<and> num = JNum k \<longrightarrow>
            toolWebSearch E args =
              Inr (JObj [(''query'', q), (''provider'', JStr ''fallback(duckduckgo+wiki)''),
                         (''items'', JArr (take (nat (k - 1)) (arr_elems (get ddg ''items''))
                                           @ take 1 (arr_elems (get wiki ''items''))))]))
     \<and> (truthy ddg \<and> \<not> truthy wiki \<longrightarrow> toolWebSearch E args = Inr ddg)
     \<and> (\<not> truthy ddg \<and> truthy wiki \<longrightarrow> toolWebSearch E args = Inr wiki)
     \<and> (\<not> truthy ddg \<and> \<not> truthy wiki \<longrightarrow>
            toolWebSearch E args =
              Inr (JObj [(''query'', q), (''provider'', JStr ''fallback''), (''items'', JArr []),
                         (''warning'', JStr ''No-key fallbacks returned no results (network/CORS?).'')]))
     \<and> (ddg = JNull \<or> (\<exists>items. items \<noteq> [] \<and>
            ddg = JObj [(''query'', q), (''provider'', JStr ''duckduckgo''), (''items'', JArr items)]))
     \<and> (wiki = JNull \<or> (\<exists>item.
            wiki = JObj [(''query'', q), (''provider'', JStr ''wikipedia''), (''items'', JArr [item])]))"
proof -
  have t: "toolWebSearch E args = fallback_merge E q num ddg wiki"
    using assms by (auto simp: toolWebSearch_def destructure_def Let_def)
  have m: "fallback_merge E q num ddg wiki =
              Inr (JObj [(''query'', q), (''provider'', JStr ''fallback(duckduckgo+wiki)''),
                         (''items'', JArr (take (nat (k - 1)) (arr_elems (get ddg ''items''))
                                           @ take 1 (arr_elems (get wiki ''items''))))])"
    if "truthy ddg" "truthy wiki" "num = JNum k"
  proof -
    have "nat (max 0 (k - 1)) = nat (k - 1)" by simp
    then show ?thesis using that
      by (simp add: fallback_merge_def to_number_def slice_to_def)
  qed
  have d: "ddg = JNull \<or> (\<exists>items. items \<noteq> [] \<and>
            ddg = JObj [(''query'', q), (''provider'', JStr ''duckduckgo''), (''items'', JArr items)])"
    unfolding assms(5) by (rule ddg_lookup_shape)
  have w: "wiki = JNull \<or> (\<exists>item.
            wiki = JObj [(''query'', q), (''provider'', JStr ''wikipedia''), (''items'', JArr [item])])"
    unfolding assms(6) by (rule wiki_lookup_shape)
  show ?thesis
    unfolding t using m d w by (simp add: fallback_merge_def)
qed

theorem fallback_search_merge_witness:
  "googleKey fallback_env = [] \<and> \<not> nullish search_x_3
   \<and> length ddg_items = 2
   \<and> ddg_lookup fallback_env (JStr ''x'') (JNum 3)
       = JObj [(''query'', JStr ''x''), (''provider'', JStr ''duckduckgo''), (''items'', JArr ddg_items)]
   \<and> wiki_lookup fallback_env (JStr ''x'')
       = JObj [(''query'', JStr ''x''), (''provider'', JStr ''wikipedia''), (''items'', JArr [wiki_item])]
   \<and> toolWebSearch fallback_env search_x_3
       = Inr (JObj [(''query'', JStr ''x''), (''provider'', JStr ''fallback(duckduckgo+wiki)''),
                    (''items'', JArr (ddg_items @ [wiki_item]))])"
proof -
  have k: "googleKey fallback_env = []" by (simp add: fallback_env_def base_env_def)
  have a: "\<not> nullish search_x_3" by (simp add: search_x_3_def)
  have q: "JStr ''x'' = get search_x_3 ''q''"
    and n: "JNum 3 = with_default (get search_x_3 ''num'') (JNum 3)"
    by (simp_all add: search_x_3_def with_default_def)
  have l: "length ddg_items = 2" by (simp add: ddg_items_def)
  from fallback_search_merge [of fallback_env search_x_3 "JStr ''x''" "JNum 3"
      "ddg_lookup fallback_env (JStr ''x'') (JNum 3)" "wiki_lookup fallback_env (JStr ''x'')" 3,
      OF disjI1 [OF k] a q n refl refl]
  have "toolWebSearch fallback_env search_x_3
       = Inr (JObj [(''query'', JStr ''x''), (''provider'', JStr ''fallback(duckduckgo+wiki)''),
                    (''items'', JArr (ddg_items @ [wiki_item]))])"
    unfolding fallback_env_lookups by (simp add: l)
  with k a l fallback_env_lookups show ?thesis by simp
qed








lemma showCode_unserializable:
  "showCode logs Unserializable JNull = Inl (TypeError ''JSON.stringify cannot serialize the value'')"
  by (simp add: showCode_def Let_def)

lemma showCode_done: "showCode logs r JNull = Inr t \<Longrightarrow> \<exists>v. r = Json v"
  by (cases r) (simp_all add: showCode_unserializable)








text \<open>
  A run of the sandbox that logs twice and returns 7 resolves with the two lines and the
  result; so does a run whose first \<^verbatim>\<open>done\<close> message could not be shown and that posts
  an error later.
\<close>

lemma js_exec_resolves:
  "executeTool (sandbox_env [WLog [''a'', ''b''], WLog [''c''], WDone (Json (JNum 7))])
       (JStr ''js_exec'') (JObj [(''code'', JStr ''console.log(1); return 7'')])
     = Some (Inr (JObj [(''logs'', JArr [JStr ''a b'', JStr ''c'']), (''result'', JNum 7)]))
   \<and> executeTool (sandbox_env [WDone Unserializable, WLog [''x''], WError ''late''])
       (JStr ''js_exec'') (JObj [])
     = Some (Inr (JObj [(''logs'', JArr [JStr ''x'']), (''error'', JStr ''late'')]))"
  unfolding sandbox_env_def by code_simp

text \<open>
  A run whose only end is a result that \<^verbatim>\<open>JSON.stringify\<close> cannot serialize: \<^verbatim>\<open>showCode\<close>
  throws in the handler and the promise is never resolved. So is the promise of code that
  never returns.
\<close>

lemma js_exec_never_settles:
  "executeTool (sandbox_env [WLog [''a''], WDone Unserializable]) (JStr ''js_exec'')
       (JObj [(''code'', JStr ''return 10n'')]) = None
   \<and> executeTool (sandbox_env [WLog [''a'']]) (JStr ''js_exec'')
       (JObj [(''code'', JStr ''for (;;) {}'')]) = None"
  unfolding sandbox_env_def by code_simp




section \<open>The sanitizer leaves its input alone\<close>

lemma length_store [simp]: "length (store h ob k v) = length h"
  by (simp add: store_def split: hval.splits cell.splits)

lemma take_store: "n \<le> a \<Longrightarrow> take n (store h (HRef a) k v) = take n h"
  by (simp add: store_def split: cell.splits)

lemma sanitize_tool_call_h_frame:
  assumes "sanitize_tool_call_h R h t = Inr (h', v)"
  shows "\<exists>cs. h' = h @ cs \<and> v = HRef (length h' - 1) \<and> length h < length h'"
  using assms
  by (auto simp: sanitize_tool_call_h_def Let_def alloc_def dest!: and_then_Inr split: if_splits)

lemma sanitize_tool_calls_h_frame:
  "sanitize_tool_calls_h R h ts = Inr (h', vs) \<Longrightarrow>
     \<exists>cs. h' = h @ cs"
proof (induction ts arbitrary: h h' vs)
  case Nil
  then show ?case by simp
next
  case (Cons t ts)
  from Cons.prems obtain h1 x h2 xs where
    1: "sanitize_tool_call_h R h t = Inr (h1, x)"
    and 2: "sanitize_tool_calls_h R h1 ts = Inr (h2, xs)" and 3: "h' = h2"
    by (auto dest!: and_then_Inr)
  from sanitize_tool_call_h_frame [OF 1] Cons.IH [OF 2] 3 show ?case by auto
qed

lemma sanitize_message_h_frame:
  assumes "sanitize_message_h R h m = Inr (h', out)"
  shows "out = HRef (length h) \<and> length h < length h' \<and> take (length h) h' = h"
proof -
  have nn: "\<not> hnullish m" using assms by (auto simp: sanitize_message_h_def split: if_splits)
  let ?role = "hget h m ''role''"
  let ?h1 = "h @ [CObj [(''role'', ?role)]]"
  let ?elems = "snd (snd (truthy_elems_h ?h1 (hget ?h1 m ''tool_calls'')))"
  consider (calls) "?role = HStr ''assistant''" "?elems \<noteq> []"
    | (plain) "?role = HStr ''assistant''" "?elems = []"
    | (tool) "?role = HStr ''tool''"
    | (other) "?role \<noteq> HStr ''assistant''" "?role \<noteq> HStr ''tool''" by blast
  then show ?thesis
  proof cases
    case calls
    obtain h2 tc elems where te: "truthy_elems_h ?h1 (hget ?h1 m ''tool_calls'') = (h2, tc, elems)"
      by (cases "truthy_elems_h ?h1 (hget ?h1 m ''tool_calls'')") auto
    then have h2: "h2 = ?h1 @ [CArr elems]" by (auto simp: truthy_elems_h_def Let_def alloc_def)
    have ne: "elems \<noteq> []" using calls(2) te by simp
    from assms nn calls(1) te ne obtain h3 calls' where
      c: "sanitize_tool_calls_h R h2 elems = Inr (h3, calls')"
      by (auto simp: sanitize_message_h_def Let_def alloc_def dest!: and_then_Inr)
    from sanitize_tool_calls_h_frame [OF c] obtain cs where h3: "h3 = h2 @ cs" by blast
    from assms nn calls(1) te ne c show ?thesis
      by (auto simp: sanitize_message_h_def Let_def alloc_def take_store h3 h2 dest!: and_then_Inr)
  next
    case plain
    with assms nn show ?thesis
      by (auto simp: sanitize_message_h_def Let_def alloc_def take_store truthy_elems_h_def
               dest!: and_then_Inr)
  next
    case tool
    with assms nn show ?thesis
      by (auto simp: sanitize_message_h_def Let_def alloc_def take_store dest!: and_then_Inr)
  next
    case other
    with assms nn show ?thesis
      by (auto simp: sanitize_message_h_def Let_def alloc_def take_store dest!: and_then_Inr)
  qed
qed


lemma sanitize_messages_h_frame:
  "sanitize_messages_h R h ms = Inr (h', outs) \<Longrightarrow>
     length h \<le> length h' \<and> take (length h) h' = h \<and> length outs = length ms
     \<and> (\<forall>v \<in> set outs. \<exists>b. v = HRef b \<and> length h \<le> b \<and> b < length h')"
proof (induction ms arbitrary: h h' outs)
  case Nil
  then show ?case by simp
next
  case (Cons m ms)
  from Cons.prems obtain h1 out outs' where
    1: "sanitize_message_h R h m = Inr (h1, out)"
    and 2: "sanitize_messages_h R h1 ms = Inr (h', outs')" and 3: "outs = out # outs'"
    by (auto dest!: and_then_Inr)
  from sanitize_message_h_frame [OF 1]
  have o: "out = HRef (length h)" and l1: "length h < length h1" and t1: "take (length h) h1 = h"
    by simp_all
  from Cons.IH [OF 2]
  have l2: "length h1 \<le> length h'" and t2: "take (length h1) h' = h1"
    and n: "length outs' = length ms"
    and f: "\<forall>v \<in> set outs'. \<exists>b. v = HRef b \<and> length h1 \<le> b \<and> b < length h'"
    by simp_all
  have "take (length h) h' = take (length h) (take (length h1) h')"
    using l1 by (simp add: min_def)
  then have t: "take (length h) h' = h" by (simp add: t2 t1)
  have "\<forall>v \<in> set outs. \<exists>b. v = HRef b \<and> length h \<le> b \<and> b < length h'"
    using f o l1 l2 unfolding 3 by auto
  then show ?case using t l1 l2 n 3 by simp
qed

lemma example_heap_run:
  "sanitizeMessagesForOpenAI_h tree_reads example_heap (HRef 11) = Inr (example_heap_after, HRef 21)"
  unfolding example_heap_after_def example_heap_def by code_simp

text \<open>
  C9. When the sanitizer returns, every cell the store had before the call is unchanged,
  so the transcript array, the message objects in it and whatever they refer to are as they
  were. The result is a new array of as many messages, each a new object: their cells did
  not exist before the call.
\<close>

theorem sanitize_does_not_mutate_input:
  assumes "sanitizeMessagesForOpenAI_h R h msgs = Inr (h', result)"
  shows "take (length h) h' = h
     \<and> (\<forall>a < length h. h' ! a = h ! a)
     \<and> (\<exists>a ms r outs.
           msgs = HRef a \<and> a < length h \<and> h ! a = CArr ms \<and> h' ! a = CArr ms
           \<and> result = HRef r \<and> length h \<le> r \<and> r < length h' \<and> h' ! r = CArr outs
           \<and> length outs = length ms
           \<and> (\<forall>v \<in> set outs. \<exists>b. v = HRef b \<and> length h \<le> b \<and> b < length h'))"
proof -
  from assms obtain a ms where m: "msgs = HRef a" and a: "a < length h" and c: "h ! a = CArr ms"
    by (auto simp: sanitizeMessagesForOpenAI_h_def split: hval.splits if_splits cell.splits)
  from assms m a c obtain h1 outs where
    1: "sanitize_messages_h R h ms = Inr (h1, outs)"
    and h': "h' = h1 @ [CArr outs]" and r: "result = HRef (length h1)"
    by (auto simp: sanitizeMessagesForOpenAI_h_def alloc_def dest!: and_then_Inr)
  from sanitize_messages_h_frame [OF 1]
  have l: "length h \<le> length h1" and t: "take (length h) h1 = h" and n: "length outs = length ms"
    and f: "\<forall>v \<in> set outs. \<exists>b. v = HRef b \<and> length h \<le> b \<and> b < length h1"
    by simp_all
  have t': "take (length h) h' = h" using l t by (simp add: h')
  have same: "\<forall>b < length h. h' ! b = h ! b"
  proof (intro allI impI)
    fix b assume b: "b < length h"
    have "h' ! b = take (length h) h' ! b" using b by simp
    then show "h' ! b = h ! b" by (simp add: t')
  qed
  have "h' ! a = CArr ms" using same a c by simp
  moreover have "h' ! length h1 = CArr outs" by (simp add: h')
  moreover have "\<forall>v \<in> set outs. \<exists>b. v = HRef b \<and> length h \<le> b \<and> b < length h'"
    using f by (auto simp: h')
  ultimately show ?thesis using t' same m a c r l n by (auto simp: h')
qed

theorem sanitize_does_not_mutate_input_witness:
  "sanitizeMessagesForOpenAI_h tree_reads example_heap (HRef 11) = Inr (example_heap_after, HRef 21)
   \<and> length example_heap = 12
   \<and> take 12 example_heap_after = example_heap
   \<and> example_heap_after ! 11 = CArr [HRef 0, HRef 5, HRef 8, HRef 10]
   \<and> example_heap_after ! 21 = CArr [HRef 12, HRef 13, HRef 18, HRef 19]
   \<and> arr_elems (reify 12 example_heap (HRef 11)) = example_transcript
   \<and> arr_elems (reify 22 example_heap_after (HRef 21)) = example_sanitized"
proof -
  have l: "length example_heap = 12" by (simp add: example_heap_def)
  from sanitize_does_not_mutate_input [OF example_heap_run]
  have t: "take 12 example_heap_after = example_heap" unfolding l by blast
  have c: "example_heap_after ! 11 = CArr [HRef 0, HRef 5, HRef 8, HRef 10]"
    "example_heap_after ! 21 = CArr [HRef 12, HRef 13, HRef 18, HRef 19]"
    by (simp_all add: example_heap_after_def example_heap_def)
  have x: "arr_elems (reify 12 example_heap (HRef 11)) = example_transcript"
    unfolding example_heap_def example_transcript_def by code_simp
  have y: "arr_elems (reify 22 example_heap_after (HRef 21)) = example_sanitized"
    unfolding example_heap_after_def example_heap_def example_sanitized_def by code_simp
  from example_heap_run l t c x y show ?thesis by simp
qed

end
